theory Spec2Isabelle
  imports Main "HOL-Library.Word"
begin

section \<open>The Redis reconciler of controllers/redis/redis_controller.go\<close>

text \<open>
  One call of \<open>Reconciler.Reconcile\<close> is modelled as a function of a \<open>world\<close>: the record of
  what every collaborator of the pass answers (the object store, the permission reconciler,
  the secret validators, the configuration renderer, the create-or-patch primitives, the
  status patch). The pass threads the fetched resource, the local map \<open>inputHashEnv\<close> and the
  list of collaborator calls it has made so far; a Go panic is a value of its own.
\<close>

subsection \<open>Errors and results\<close>

datatype error = Error string | Wrapped string error

text \<open>\<open>err.Error()\<close>; \<open>Wrapped p e\<close> is \<open>fmt.Errorf(p + "%w", e)\<close>.\<close>

fun Error_msg :: "error \<Rightarrow> string" where
  "Error_msg (Error m) = m"
| "Error_msg (Wrapped p e) = p @ Error_msg e"

text \<open>
  \<open>err.Error()\<close> on a variable of interface type \<open>error\<close>: a nil interface has no method
  to dispatch to, and the call panics (\<open>None\<close>).
\<close>

definition Error_of :: "error option \<Rightarrow> string option" where
  "Error_of err = (case err of None \<Rightarrow> None | Some e \<Rightarrow> Some (Error_msg e))"

text \<open>\<open>ctrl.Result\<close>; \<open>RequeueAfter\<close> is a \<open>time.Duration\<close>, an int64.\<close>

record Result =
  Requeue :: bool
  RequeueAfter :: "64 word"

definition emptyResult :: Result where
  "emptyResult = \<lparr>Requeue = False, RequeueAfter = 0\<rparr>"

text \<open>What a Go function call ends with: its two named results, or a panic.\<close>

datatype returned = Return Result "error option" | Panic

subsection \<open>The condition ledger\<close>

text \<open>
  The condition types, reasons and message constants are named by the identifiers the
  source uses for them; \<open>OtherCondition\<close>, \<open>OtherReason\<close> stand for any value that has no
  identifier in this file. \<open>Text c\<close> is the message constant \<open>c\<close>, \<open>Sprintf c args\<close> the
  format constant \<open>c\<close> applied to \<open>args\<close>.
\<close>

datatype cond_type =
    ReadyCondition
  | TLSInputReadyCondition
  | ExposeServiceReadyCondition
  | ServiceConfigReadyCondition
  | DeploymentReadyCondition
  | ServiceAccountReadyCondition
  | RoleReadyCondition
  | RoleBindingReadyCondition
  | OtherCondition string

datatype cond_status = ConditionTrue | ConditionFalse | ConditionUnknown

datatype severity = SeverityError | SeverityWarning | SeverityInfo | SeverityNone

datatype reason = InitReason | ErrorReason | ReadyReason | OtherReason string

datatype message = Text string | Sprintf string "string list"

record Condition =
  Type :: cond_type
  Status :: cond_status
  Severity :: severity
  Reason :: reason
  Message :: message

text \<open>
  Modelled from the spec: the condition package of lib-common (\<open>TrueCondition\<close>,
  \<open>FalseCondition\<close>, \<open>UnknownCondition\<close>, \<open>Set\<close>, \<open>MarkTrue\<close>, \<open>MarkUnknown\<close>, \<open>CreateList\<close>,
  \<open>Init\<close>, \<open>AllSubConditionIsTrue\<close>, \<open>Mirror\<close>) is imported by the controller and is not part
  of its source. The spec's Condition is (name, state in {True, False, Unknown}, reason,
  message); its ledger has one entry per name, \<open>initialize(names)\<close>, \<open>markTrue(name)\<close>,
  \<open>markFalse(name, reason, severity, message)\<close> and \<open>recomputeOverall()\<close>. Transition times
  are left out.
\<close>

definition TrueCondition :: "cond_type \<Rightarrow> message \<Rightarrow> Condition" where
  "TrueCondition t m =
     \<lparr>Type = t, Status = ConditionTrue, Severity = SeverityNone, Reason = ReadyReason, Message = m\<rparr>"

definition FalseCondition :: "cond_type \<Rightarrow> reason \<Rightarrow> severity \<Rightarrow> message \<Rightarrow> Condition" where
  "FalseCondition t r s m =
     \<lparr>Type = t, Status = ConditionFalse, Severity = s, Reason = r, Message = m\<rparr>"

definition UnknownCondition :: "cond_type \<Rightarrow> reason \<Rightarrow> message \<Rightarrow> Condition" where
  "UnknownCondition t r m =
     \<lparr>Type = t, Status = ConditionUnknown, Severity = SeverityNone, Reason = r, Message = m\<rparr>"

text \<open>
  Modelled from the spec: \<open>Conditions.Set\<close> of lib-common. The entry of the same type is
  replaced where it stands; a type that has no entry yet is appended.
\<close>

fun Set :: "Condition \<Rightarrow> Condition list \<Rightarrow> Condition list" where
  "Set c [] = [c]"
| "Set c (d # ds) = (if Type d = Type c then c # ds else d # Set c ds)"

definition MarkTrue :: "cond_type \<Rightarrow> message \<Rightarrow> Condition list \<Rightarrow> Condition list" where
  "MarkTrue t m cs = Set (TrueCondition t m) cs"

definition MarkUnknown :: "cond_type \<Rightarrow> reason \<Rightarrow> message \<Rightarrow> Condition list \<Rightarrow> Condition list" where
  "MarkUnknown t r m cs = Set (UnknownCondition t r m) cs"

definition CreateList :: "Condition list \<Rightarrow> Condition list" where
  "CreateList cl = cl"

text \<open>
  Modelled from the spec: \<open>Conditions.Init\<close> of lib-common. The overall Ready condition is
  entered as Unknown, then every condition of the list given.
\<close>

definition Init :: "Condition list \<Rightarrow> Condition list \<Rightarrow> Condition list" where
  "Init cl cs =
     fold Set cl (Set (UnknownCondition ReadyCondition InitReason (Text ''ReadyInitMessage'')) cs)"

text \<open>The first entry of a type, and whether it is True (\<open>Conditions.Get\<close>, \<open>Conditions.IsTrue\<close>).\<close>

definition Get :: "cond_type \<Rightarrow> Condition list \<Rightarrow> Condition option" where
  "Get t cs = find (\<lambda>c. Type c = t) cs"

definition IsTrue :: "cond_type \<Rightarrow> Condition list \<Rightarrow> bool" where
  "IsTrue t cs = (case Get t cs of None \<Rightarrow> False | Some c \<Rightarrow> Status c = ConditionTrue)"

text \<open>
  Modelled from the spec: \<open>Conditions.AllSubConditionIsTrue\<close> of lib-common, "every other
  declared condition is True": every entry that is not the Ready condition.
\<close>

definition subConditions :: "Condition list \<Rightarrow> Condition list" where
  "subConditions cs = filter (\<lambda>c. Type c \<noteq> ReadyCondition) cs"

definition AllSubConditionIsTrue :: "Condition list \<Rightarrow> bool" where
  "AllSubConditionIsTrue cs = list_all (\<lambda>c. Status c = ConditionTrue) (subConditions cs)"

text \<open>
  Modelled from the spec: \<open>Conditions.Mirror\<close> of lib-common, "a mirror of whichever
  sub-condition is most severe". A False condition is more severe than an Unknown one, which
  is more severe than a True one; among False conditions the severity decides (error,
  warning, info, none). Of several most severe entries the first one is mirrored. An empty
  ledger has nothing to mirror (a nil pointer in Go, \<open>None\<close> here).
\<close>

fun rank :: "Condition \<Rightarrow> nat" where
  "rank c =
     (case Status c of
        ConditionFalse \<Rightarrow>
          (case Severity c of
             SeverityError \<Rightarrow> 0 | SeverityWarning \<Rightarrow> 1 | SeverityInfo \<Rightarrow> 2 | SeverityNone \<Rightarrow> 3)
      | ConditionUnknown \<Rightarrow> 4
      | ConditionTrue \<Rightarrow> 5)"

fun mostSevere :: "Condition list \<Rightarrow> Condition option" where
  "mostSevere [] = None"
| "mostSevere (c # cs) =
     (case mostSevere cs of
        None \<Rightarrow> Some c
      | Some d \<Rightarrow> if rank c \<le> rank d then Some c else Some d)"

definition Mirror :: "cond_type \<Rightarrow> Condition list \<Rightarrow> Condition option" where
  "Mirror t cs =
     (case mostSevere (filter (\<lambda>c. Type c \<noteq> t) cs) of
        None \<Rightarrow> None
      | Some c \<Rightarrow> Some (c\<lparr>Type := t\<rparr>))"

subsection \<open>The managed resource\<close>

text \<open>
  \<open>instance.Spec.TLS\<close>: the service certificate secret is a \<open>*string\<close>, the CA bundle secret
  name a \<open>string\<close>.
\<close>

record tls =
  SecretName :: "string option"
  CaBundleSecretName :: string

text \<open>
  Modelled from the spec: \<open>Enabled\<close> of lib-common's tls package, "whether enabled, a
  reference to a certificate secret": transport security is enabled when the service
  certificate secret is referenced. \<open>SetupWithManager\<close> dereferences \<open>SecretName\<close> under
  \<open>Enabled()\<close>, so it is not nil there.
\<close>

definition Enabled :: "tls \<Rightarrow> bool" where
  "Enabled t = (case SecretName t of None \<Rightarrow> False | Some n \<Rightarrow> n \<noteq> '''')"

text \<open>
  The Redis resource: \<open>Status.Conditions\<close> is a slice that may be nil (\<open>None\<close>),
  \<open>Status.Hash\<close> a \<open>map[string]string\<close>.
\<close>

record Redis =
  Name :: string
  Namespace :: string
  Spec_TLS :: tls
  Status_Conditions :: "Condition list option"
  Status_Hash :: "string \<rightharpoonup> string"

subsection \<open>The hash of the inputs\<close>

text \<open>
  \<open>inputHashEnv\<close> is a \<open>map[string]env.Setter\<close>; every setter stored in it is
  \<open>env.SetValue(v)\<close>, which the loop of lines 258 to 262 reads back as \<open>v\<close>. The map is
  modelled by the values.
\<close>

type_synonym env = "string \<rightharpoonup> string"

text \<open>
  Modelled from the spec: \<open>common.InputHashName\<close>, the "reserved slot for the aggregate
  hash" of the status hash mapping.
\<close>

definition InputHashName :: string where
  "InputHashName = ''input''"

text \<open>
  Modelled from the spec: \<open>util.SetHash\<close> of lib-common, \<open>compare(status, aggregate) ->
  (changed, updatedStatus)\<close>: the slot is changed when it is absent or holds another hash.
\<close>

definition SetHash :: "(string \<rightharpoonup> string) \<Rightarrow> string \<Rightarrow> string \<Rightarrow> (string \<rightharpoonup> string) \<times> bool" where
  "SetHash hashMap name h =
     (if hashMap name = Some h then (hashMap, False) else (hashMap(name \<mapsto> h), True))"

subsection \<open>The collaborators of a pass\<close>

datatype get_result = Found Redis | NotFound | GetError error

text \<open>
  What the collaborators answer in one pass. Every collaborator is called at most once in a
  pass, so one answer each is all a pass can see; the three that read what the pass hands
  them are functions of it.
  \<^item> \<open>r_Get\<close>: \<open>r.Get\<close> of line 108; \<open>NewHelper\<close>: the error of \<open>helper.NewHelper\<close>;
  \<^item> \<open>ReconcileRbac_result\<close>, \<open>ReconcileRbac_conditions\<close>: the two results of
    \<open>common_rbac.ReconcileRbac\<close> and what it does to the conditions of the instance it is given;
  \<^item> \<open>ValidateCertSecret\<close>, \<open>ValidateCACertSecret\<close>: the hash and the error of the two
    validators (their \<open>ctrl.Result\<close> is discarded by the source);
  \<^item> \<open>EnsureConfigMaps\<close>: from the template names and the map it is given, the map it
    leaves behind and its error;
  \<^item> \<open>HashOfInputHashes\<close>: \<open>util.HashOfInputHashes\<close>;
  \<^item> \<open>NewService_headless\<close>, \<open>NewService_commonsvc\<close>: the errors of the two
    \<open>commonservice.NewService\<close> calls; \<open>headless_CreateOrPatch\<close>, \<open>commonsvc_CreateOrPatch\<close>,
    \<open>statefulset_CreateOrPatch\<close>: the results of the three upserts;
  \<^item> \<open>ReadyReplicas\<close>: \<open>statefulset.Status.ReadyReplicas\<close>, an int32;
  \<^item> \<open>PatchInstance\<close>: the error of \<open>helper.PatchInstance\<close>.
\<close>

record world =
  r_Get :: get_result
  NewHelper :: "error option"
  ReconcileRbac_result :: "Result \<times> error option"
  ReconcileRbac_conditions :: "Condition list \<Rightarrow> Condition list"
  ValidateCertSecret :: "string \<times> error option"
  ValidateCACertSecret :: "string \<times> error option"
  EnsureConfigMaps :: "string list \<Rightarrow> env \<Rightarrow> env \<times> error option"
  HashOfInputHashes :: "env \<Rightarrow> string \<times> error option"
  NewService_headless :: "error option"
  headless_CreateOrPatch :: "Result \<times> error option"
  NewService_commonsvc :: "error option"
  commonsvc_CreateOrPatch :: "Result \<times> error option"
  statefulset_CreateOrPatch :: "Result \<times> error option"
  ReadyReplicas :: "32 word"
  PatchInstance :: "error option"

text \<open>The calls a pass makes to the object store and to the sub-reconcilers, in order.\<close>

datatype call =
    CallGet
  | CallReconcileRbac
  | CallValidateCertSecret
  | CallValidateCACertSecret
  | CallEnsureConfigMaps
  | CallHeadlessCreateOrPatch
  | CallServiceCreateOrPatch
  | CallStatefulSetCreateOrPatch
  | CallPatchInstance Redis

text \<open>The mutable state of a pass: \<open>instance\<close>, \<open>inputHashEnv\<close> and the calls made.\<close>

record pass =
  inst :: Redis
  inputHashEnv :: env
  calls :: "call list"

definition called :: "call \<Rightarrow> pass \<Rightarrow> pass" where
  "called c p = p\<lparr>calls := calls p @ [c]\<rparr>"

text \<open>A nil slice of conditions is read as the empty one.\<close>

definition conds :: "Redis \<Rightarrow> Condition list" where
  "conds i = (case Status_Conditions i of None \<Rightarrow> [] | Some cs \<Rightarrow> cs)"

definition updConditions :: "(Condition list \<Rightarrow> Condition list) \<Rightarrow> pass \<Rightarrow> pass" where
  "updConditions f p = p\<lparr>inst := (inst p)\<lparr>Status_Conditions := Some (f (conds (inst p)))\<rparr>\<rparr>"

text \<open>
  A stage of the pass either returns from \<open>Reconcile\<close> (\<open>Inl\<close>, with what it returns) or falls
  through to the next statement (\<open>Inr\<close>).
\<close>

type_synonym stage = "(returned \<times> pass) + pass"

definition andThen :: "stage \<Rightarrow> (pass \<Rightarrow> stage) \<Rightarrow> stage" where
  "andThen s f = (case s of Inl rp \<Rightarrow> Inl rp | Inr p \<Rightarrow> f p)"

subsection \<open>The pass, stage by stage\<close>

text \<open>Lines 158 to 171: the conditions the controller declares, all Unknown.\<close>

definition declaredConditions :: "Condition list" where
  "declaredConditions =
     CreateList
       [UnknownCondition TLSInputReadyCondition InitReason (Text ''InputReadyInitMessage''),
        UnknownCondition ExposeServiceReadyCondition InitReason (Text ''ExposeServiceReadyInitMessage''),
        UnknownCondition ServiceConfigReadyCondition InitReason (Text ''ServiceConfigReadyInitMessage''),
        UnknownCondition DeploymentReadyCondition InitReason (Text ''DeploymentReadyInitMessage''),
        UnknownCondition ServiceAccountReadyCondition InitReason (Text ''ServiceAccountReadyInitMessage''),
        UnknownCondition RoleReadyCondition InitReason (Text ''RoleReadyInitMessage''),
        UnknownCondition RoleBindingReadyCondition InitReason (Text ''RoleBindingReadyInitMessage'')]"

text \<open>Lines 155 to 177: a nil condition list is initialised and the pass returns.\<close>

definition initStatus :: "pass \<Rightarrow> stage" where
  "initStatus p =
     (case Status_Conditions (inst p) of
        None \<Rightarrow>
          (let cl = declaredConditions
           in Inl (Return emptyResult None,
                   p\<lparr>inst := (inst p)\<lparr>Status_Conditions := Some (Init cl [])\<rparr>\<rparr>))
      | Some cs \<Rightarrow> Inr p)"

text \<open>Lines 184 to 202: service account, role and role binding.\<close>

definition reconcileRbac :: "world \<Rightarrow> pass \<Rightarrow> stage" where
  "reconcileRbac w p0 =
     (let p = called CallReconcileRbac (updConditions (ReconcileRbac_conditions w) p0);
          (rbacResult, err) = ReconcileRbac_result w
      in if err \<noteq> None then Inl (Return rbacResult err, p)
         else if rbacResult \<noteq> emptyResult then Inl (Return rbacResult None, p)
         else Inr p)"

text \<open>
  Lines 205 to 221: the hashes of the certificate secret and of the CA bundle secret.
  \<open>err\<close> is nil when line 205 is reached; the stage gives back the \<open>err\<close> line 222 tests.
\<close>

definition hashInputs :: "world \<Rightarrow> pass \<Rightarrow> pass \<times> error option" where
  "hashInputs w p0 =
     (let p1 = p0\<lparr>inputHashEnv := Map.empty\<rparr>;
          specTLS = Spec_TLS (inst p1);
          (p2, err) =
            (if Enabled specTLS then
               (let (certHash, err) = ValidateCertSecret w;
                    p = called CallValidateCertSecret p1
                in (p\<lparr>inputHashEnv := (inputHashEnv p)(''Cert'' \<mapsto> certHash)\<rparr>, err))
             else (p1, None))
      in if err = None \<and> CaBundleSecretName specTLS \<noteq> '''' then
           (let (caHash, err) = ValidateCACertSecret w;
                p = called CallValidateCACertSecret p2
            in (p\<lparr>inputHashEnv := (inputHashEnv p)(''CA'' \<mapsto> caHash)\<rparr>, err))
         else (p2, err))"

text \<open>Lines 222 to 231.\<close>

definition checkInputs :: "world \<Rightarrow> pass \<Rightarrow> stage" where
  "checkInputs w p0 =
     (let (p, err) = hashInputs w p0
      in if err \<noteq> None then
           (case Error_of err of
              None \<Rightarrow> Inl (Panic, p)
            | Some m \<Rightarrow>
                Inl (Return emptyResult (map_option (Wrapped ''error calculating input hash: '') err),
                     updConditions
                       (Set (FalseCondition TLSInputReadyCondition ErrorReason SeverityWarning
                               (Sprintf ''TLSInputErrorMessage'' [m]))) p))
         else Inr (updConditions (MarkTrue TLSInputReadyCondition (Text ''InputReadyMessage'')) p))"

text \<open>
  Lines 333 to 370: \<open>generateConfigMaps\<close> hands the two templates and the map to
  \<open>configmap.EnsureConfigMaps\<close>, which writes into the map, and returns its error.
\<close>

definition generateConfigMaps :: "world \<Rightarrow> pass \<Rightarrow> pass \<times> error option" where
  "generateConfigMaps w p0 =
     (let cms = [Name (inst p0) @ ''-scripts'', Name (inst p0) @ ''-config-data''];
          (envVars, err) = EnsureConfigMaps w cms (inputHashEnv p0);
          p = called CallEnsureConfigMaps p0
      in (p\<lparr>inputHashEnv := envVars\<rparr>, err))"

text \<open>Lines 234 to 244.\<close>

definition configMaps :: "world \<Rightarrow> pass \<Rightarrow> stage" where
  "configMaps w p0 =
     (let (p, err) = generateConfigMaps w p0
      in if err \<noteq> None then
           (case Error_of err of
              None \<Rightarrow> Inl (Panic, p)
            | Some m \<Rightarrow>
                Inl (Return emptyResult (map_option (Wrapped ''error calculating configmap hash: '') err),
                     updConditions
                       (Set (FalseCondition ServiceConfigReadyCondition ErrorReason SeverityWarning
                               (Sprintf ''ServiceConfigReadyErrorMessage'' [m]))) p))
         else Inr (updConditions (MarkTrue ServiceConfigReadyCondition (Text ''ServiceConfigReadyMessage'')) p))"

text \<open>
  Lines 250 to 265: the hash of the hashes against the one stored under \<open>InputHashName\<close>.
  The loop over \<open>inputHashEnv\<close> stores every entry of the map under its own key, which is
  the map laid over \<open>hashMap\<close>.
\<close>

definition hashDrift :: "world \<Rightarrow> pass \<Rightarrow> stage" where
  "hashDrift w p =
     (let (hashOfHashes, err) = HashOfInputHashes w (inputHashEnv p)
      in if err \<noteq> None then Inl (Return emptyResult err, p)
         else
           (let (hashMap, changed) = SetHash (Status_Hash (inst p)) InputHashName hashOfHashes
            in if changed then
                 Inl (Return emptyResult None,
                      p\<lparr>inst := (inst p)\<lparr>Status_Hash := hashMap ++ inputHashEnv p\<rparr>\<rparr>)
               else Inr p))"

text \<open>
  Lines 269 to 311: the headless service and the service that exposes the pods. The four
  failure branches all format \<open>err.Error()\<close>, where \<open>err\<close> is the error of the last
  \<open>NewService\<close> call.
\<close>

definition exposeServiceError :: "string \<Rightarrow> Condition list \<Rightarrow> Condition list" where
  "exposeServiceError m =
     Set (FalseCondition ExposeServiceReadyCondition ErrorReason SeverityWarning
            (Sprintf ''ExposeServiceReadyErrorMessage'' [m]))"

definition endpoints :: "world \<Rightarrow> pass \<Rightarrow> stage" where
  "endpoints w p0 =
     (let err = NewService_headless w
      in if err \<noteq> None then
           (case Error_of err of
              None \<Rightarrow> Inl (Panic, p0)
            | Some m \<Rightarrow> Inl (Return emptyResult err, updConditions (exposeServiceError m) p0))
         else
           (let (hlres, hlerr) = headless_CreateOrPatch w;
                p1 = called CallHeadlessCreateOrPatch p0
            in if hlerr \<noteq> None then
                 (case Error_of err of
                    None \<Rightarrow> Inl (Panic, p1)
                  | Some m \<Rightarrow> Inl (Return hlres hlerr, updConditions (exposeServiceError m) p1))
               else
                 (let err = NewService_commonsvc w
                  in if err \<noteq> None then
                       (case Error_of err of
                          None \<Rightarrow> Inl (Panic, p1)
                        | Some m \<Rightarrow> Inl (Return emptyResult err, updConditions (exposeServiceError m) p1))
                     else
                       (let (sres, serr) = commonsvc_CreateOrPatch w;
                            p2 = called CallServiceCreateOrPatch p1
                        in if serr \<noteq> None then
                             (case Error_of err of
                                None \<Rightarrow> Inl (Panic, p2)
                              | Some m \<Rightarrow> Inl (Return sres serr, updConditions (exposeServiceError m) p2))
                           else
                             Inr (updConditions
                                    (MarkTrue ExposeServiceReadyCondition (Text ''ExposeServiceReadyMessage''))
                                    p2)))))"

text \<open>Lines 318 to 329: the stateful set and its ready replicas.\<close>

definition workload :: "world \<Rightarrow> pass \<Rightarrow> returned \<times> pass" where
  "workload w p0 =
     (let (sfres, sferr) = statefulset_CreateOrPatch w;
          p = called CallStatefulSetCreateOrPatch p0
      in if sferr \<noteq> None then (Return sfres sferr, p)
         else if 0 <s ReadyReplicas w then
           (Return emptyResult None,
            updConditions (MarkTrue DeploymentReadyCondition (Text ''DeploymentReadyMessage'')) p)
         else (Return emptyResult None, p))"

text \<open>The statements of lines 155 to 329 up to each stage, and all of them.\<close>

definition beforeInputs :: "world \<Rightarrow> pass \<Rightarrow> stage" where
  "beforeInputs w p = andThen (initStatus p) (reconcileRbac w)"

definition beforeConfig :: "world \<Rightarrow> pass \<Rightarrow> stage" where
  "beforeConfig w p = andThen (beforeInputs w p) (checkInputs w)"

definition beforeHash :: "world \<Rightarrow> pass \<Rightarrow> stage" where
  "beforeHash w p = andThen (beforeConfig w p) (configMaps w)"

definition beforeEndpoints :: "world \<Rightarrow> pass \<Rightarrow> stage" where
  "beforeEndpoints w p = andThen (beforeHash w p) (hashDrift w)"

definition beforeWorkload :: "world \<Rightarrow> pass \<Rightarrow> stage" where
  "beforeWorkload w p = andThen (beforeEndpoints w p) (endpoints w)"

definition body :: "world \<Rightarrow> pass \<Rightarrow> returned \<times> pass" where
  "body w p = (case beforeWorkload w p of Inl rp \<Rightarrow> rp | Inr p' \<Rightarrow> workload w p')"

text \<open>
  Lines 132 to 150, the deferred function. It runs when the body returns and when it
  panics; it recomputes the Ready condition, patches the instance and, when the patch
  fails, overwrites the named result \<open>_err\<close>. It does not recover: a panic goes on to the
  caller.
\<close>

definition recomputeReady :: "Condition list \<Rightarrow> Condition list" where
  "recomputeReady cs =
     (if AllSubConditionIsTrue cs then MarkTrue ReadyCondition (Text ''ReadyMessage'') cs
      else
        (let cs1 = MarkUnknown ReadyCondition InitReason (Text ''ReadyInitMessage'') cs
         in case Mirror ReadyCondition cs1 of None \<Rightarrow> cs1 | Some c \<Rightarrow> Set c cs1))"

definition deferred :: "world \<Rightarrow> returned \<times> pass \<Rightarrow> returned \<times> pass" where
  "deferred w rp =
     (let (r, p0) = rp;
          p1 = updConditions recomputeReady p0;
          p = called (CallPatchInstance (inst p1)) p1
      in case PatchInstance w of
           None \<Rightarrow> (r, p)
         | Some e \<Rightarrow> (case r of Return res _ \<Rightarrow> (Return res (Some e), p) | Panic \<Rightarrow> (Panic, p)))"

text \<open>
  What a pass leaves: what \<open>Reconcile\<close> returned, the instance as it stands in memory when
  one was fetched, \<open>inputHashEnv\<close>, and the calls made.
\<close>

record outcome =
  ret :: returned
  final :: "Redis option"
  hashEnv :: env
  trace :: "call list"

text \<open>
  Lines 103 to 330. The three returns of lines 114, 117 and 128 come before the \<open>defer\<close>
  statement of line 132.
\<close>

definition start :: "Redis \<Rightarrow> pass" where
  "start i = \<lparr>inst = i, inputHashEnv = Map.empty, calls = [CallGet]\<rparr>"

definition Reconcile :: "world \<Rightarrow> outcome" where
  "Reconcile w =
     (case r_Get w of
        NotFound \<Rightarrow>
          \<lparr>ret = Return emptyResult None, final = None, hashEnv = Map.empty, trace = [CallGet]\<rparr>
      | GetError e \<Rightarrow>
          \<lparr>ret = Return emptyResult (Some e), final = None, hashEnv = Map.empty, trace = [CallGet]\<rparr>
      | Found i \<Rightarrow>
          (case NewHelper w of
             Some e \<Rightarrow>
               \<lparr>ret = Return emptyResult (Some e), final = Some i, hashEnv = Map.empty,
                trace = [CallGet]\<rparr>
           | None \<Rightarrow>
               (let (r, p) = deferred w (body w (start i))
                in \<lparr>ret = r, final = Some (inst p), hashEnv = inputHashEnv p, trace = calls p\<rparr>)))"

text \<open>The state a stage leaves, whichever way it ends.\<close>

definition stagePass :: "stage \<Rightarrow> pass" where
  "stagePass s = (case s of Inl rp \<Rightarrow> snd rp | Inr p \<Rightarrow> p)"

text \<open>The status patch among the calls.\<close>

fun isPatch :: "call \<Rightarrow> bool" where
  "isPatch (CallPatchInstance i) = True"
| "isPatch c = False"

subsection \<open>Resources and worlds to run the pass on\<close>

text \<open>
  A resource seen for the first time; the same resource as a pass leaves it when every
  condition is True and the hashes are stored; variants of it with a CA bundle only, with a
  certificate and a CA bundle, with an outdated aggregate hash, and with a Ready condition
  that is True beside a False one.
\<close>

definition redisNew :: Redis where
  "redisNew =
     \<lparr>Name = ''redis'', Namespace = ''openstack'',
      Spec_TLS = \<lparr>SecretName = None, CaBundleSecretName = ''''\<rparr>,
      Status_Conditions = None, Status_Hash = Map.empty\<rparr>"

definition allTrue :: "Condition list" where
  "allTrue =
     [TrueCondition ReadyCondition (Text ''ReadyMessage''),
      TrueCondition TLSInputReadyCondition (Text ''InputReadyMessage''),
      TrueCondition ExposeServiceReadyCondition (Text ''ExposeServiceReadyMessage''),
      TrueCondition ServiceConfigReadyCondition (Text ''ServiceConfigReadyMessage''),
      TrueCondition DeploymentReadyCondition (Text ''DeploymentReadyMessage''),
      TrueCondition ServiceAccountReadyCondition (Text ''ServiceAccountReadyMessage''),
      TrueCondition RoleReadyCondition (Text ''RoleReadyMessage''),
      TrueCondition RoleBindingReadyCondition (Text ''RoleBindingReadyMessage'')]"

definition redisReady :: Redis where
  "redisReady =
     redisNew\<lparr>Status_Conditions := Some allTrue,
              Status_Hash := [''input'' \<mapsto> ''agg'', ''redis-config-data'' \<mapsto> ''cfghash'']\<rparr>"

definition redisCA :: Redis where
  "redisCA = redisReady\<lparr>Spec_TLS := \<lparr>SecretName = None, CaBundleSecretName = ''ca-bundle''\<rparr>\<rparr>"

definition redisTLS :: Redis where
  "redisTLS =
     redisReady\<lparr>Spec_TLS := \<lparr>SecretName = Some ''cert-redis'', CaBundleSecretName = ''ca-bundle''\<rparr>\<rparr>"

definition redisDrift :: Redis where
  "redisDrift = redisReady\<lparr>Status_Hash := [''input'' \<mapsto> ''old'']\<rparr>"

definition redisStale :: Redis where
  "redisStale =
     redisNew\<lparr>Status_Conditions :=
       Some [TrueCondition ReadyCondition (Text ''ReadyMessage''),
             FalseCondition TLSInputReadyCondition ErrorReason SeverityWarning
               (Sprintf ''TLSInputErrorMessage'' [''secret not found''])]\<rparr>"

text \<open>
  The world in which the resource is found and every collaborator succeeds: the permission
  reconciler leaves the conditions as they are, the renderer adds its entry, the aggregate
  hash is \<open>agg\<close>, one replica is ready.
\<close>

definition okWorld :: "Redis \<Rightarrow> world" where
  "okWorld i =
     \<lparr>r_Get = Found i, NewHelper = None,
      ReconcileRbac_result = (emptyResult, None),
      ReconcileRbac_conditions = (\<lambda>cs. cs),
      ValidateCertSecret = (''certhash'', None),
      ValidateCACertSecret = (''cahash'', None),
      EnsureConfigMaps = (\<lambda>cms e. (e(''redis-config-data'' \<mapsto> ''cfghash''), None)),
      HashOfInputHashes = (\<lambda>e. (''agg'', None)),
      NewService_headless = None, headless_CreateOrPatch = (emptyResult, None),
      NewService_commonsvc = None, commonsvc_CreateOrPatch = (emptyResult, None),
      statefulset_CreateOrPatch = (emptyResult, None),
      ReadyReplicas = 1, PatchInstance = None\<rparr>"

text \<open>Worlds in which one collaborator fails, or the resource is gone.\<close>

definition helperFails :: world where
  "helperFails = (okWorld redisStale)\<lparr>NewHelper := Some (Error ''no kind is registered'')\<rparr>"

definition notFound :: world where
  "notFound = (okWorld redisNew)\<lparr>r_Get := NotFound\<rparr>"

definition patchFails :: "Redis \<Rightarrow> world" where
  "patchFails i = (okWorld i)\<lparr>PatchInstance := Some (Error ''conflict'')\<rparr>"

definition certFails :: world where
  "certFails = (okWorld redisTLS)\<lparr>ValidateCertSecret := ('''', Some (Error ''secret not found''))\<rparr>"

definition caFails :: world where
  "caFails = (okWorld redisCA)\<lparr>ValidateCACertSecret := ('''', Some (Error ''ca bundle not found''))\<rparr>"

definition headlessFails :: world where
  "headlessFails =
     (okWorld redisReady)\<lparr>headless_CreateOrPatch := (emptyResult, Some (Error ''conflict''))\<rparr>"

definition serviceFails :: world where
  "serviceFails =
     (okWorld redisReady)\<lparr>commonsvc_CreateOrPatch := (emptyResult, Some (Error ''conflict''))\<rparr>"

definition later :: Result where
  "later = \<lparr>Requeue = False, RequeueAfter = 5000000000\<rparr>"

definition statefulsetFails :: world where
  "statefulsetFails =
     (okWorld redisReady)\<lparr>statefulset_CreateOrPatch := (later, Some (Error ''timeout''))\<rparr>"

definition statefulsetAndPatchFail :: world where
  "statefulsetAndPatchFail = statefulsetFails\<lparr>PatchInstance := Some (Error ''conflict'')\<rparr>"

definition noReplicas :: world where
  "noReplicas = (okWorld redisReady)\<lparr>ReadyReplicas := 0\<rparr>"

definition rbacPending :: world where
  "rbacPending = (okWorld redisReady)\<lparr>ReconcileRbac_result := (later, None)\<rparr>"

section \<open>Properties\<close>

subsection \<open>The ledger\<close>


lemma Get_Set_same: "Type c = t \<Longrightarrow> Get t (Set c cs) = Some c"
  by (induction cs) (auto simp: Get_def)

lemma Get_Set_other: "Type c \<noteq> t \<Longrightarrow> Get t (Set c cs) = Get t cs"
  by (induction cs) (auto simp: Get_def)

lemma subConditions_Set_Ready:
  "Type c = ReadyCondition \<Longrightarrow> subConditions (Set c cs) = subConditions cs"
  by (induction cs) (auto simp: subConditions_def)

lemma mostSevere_None: "mostSevere xs = None \<longleftrightarrow> xs = []"
  by (induction xs) (auto split: option.splits)

lemma mostSevere_mem: "mostSevere xs = Some c \<Longrightarrow> c \<in> set xs"
  by (induction xs arbitrary: c) (auto split: option.splits if_splits)

lemma mostSevere_least: "mostSevere xs = Some c \<Longrightarrow> d \<in> set xs \<Longrightarrow> rank c \<le> rank d"
proof (induction xs arbitrary: c d)
  case Nil
  then show ?case by simp
next
  case (Cons x xs)
  show ?case
  proof (cases "mostSevere xs")
    case None
    then have "xs = []" by (simp add: mostSevere_None)
    with Cons.prems None show ?thesis by simp
  next
    case (Some m)
    have le: "\<And>y. y \<in> set xs \<Longrightarrow> rank m \<le> rank y" by (rule Cons.IH [OF Some])
    show ?thesis
    proof (cases "rank x \<le> rank m")
      case True
      with Some Cons.prems(1) have "c = x" by simp
      with True le Cons.prems(2) show ?thesis by (auto intro: order_trans)
    next
      case False
      with Some Cons.prems(1) have "c = m" by simp
      with False le Cons.prems(2) show ?thesis by auto
    qed
  qed
qed

lemma rank_True: "rank c = 5 \<longleftrightarrow> Status c = ConditionTrue"
  by (simp split: cond_status.splits severity.splits)

lemma rank_le: "rank c \<le> 5"
  by (simp split: cond_status.splits severity.splits)

lemma mostSevere_not_True:
  assumes "mostSevere xs = Some c" and "\<not> list_all (\<lambda>d. Status d = ConditionTrue) xs"
  shows "Status c \<noteq> ConditionTrue"
proof -
  from assms(2) obtain d where d: "d \<in> set xs" "Status d \<noteq> ConditionTrue"
    by (auto simp: list_all_iff)
  have "rank d \<noteq> 5" using d(2) rank_True [of d] by blast
  moreover have "rank d \<le> 5" by (rule rank_le)
  ultimately have "rank d < 5" by linarith
  moreover have "rank c \<le> rank d" using mostSevere_least [OF assms(1) d(1)] .
  ultimately have "rank c \<noteq> 5" by linarith
  then show ?thesis using rank_True [of c] by blast
qed

lemma subConditions_recomputeReady: "subConditions (recomputeReady cs) = subConditions cs"
  by (simp add: recomputeReady_def MarkTrue_def MarkUnknown_def Mirror_def Let_def
      subConditions_Set_Ready TrueCondition_def UnknownCondition_def split: option.splits)

lemma Get_recomputeReady_other:
  "t \<noteq> ReadyCondition \<Longrightarrow> Get t (recomputeReady cs) = Get t cs"
  by (simp add: recomputeReady_def MarkTrue_def MarkUnknown_def Mirror_def Let_def
      Get_Set_other TrueCondition_def UnknownCondition_def split: option.splits)

lemma Mirror_MarkUnknown:
  "Mirror ReadyCondition (MarkUnknown ReadyCondition r m cs) =
     (case mostSevere (subConditions cs) of None \<Rightarrow> None | Some c \<Rightarrow> Some (c\<lparr>Type := ReadyCondition\<rparr>))"
proof -
  have "filter (\<lambda>c. Type c \<noteq> ReadyCondition) (MarkUnknown ReadyCondition r m cs) = subConditions cs"
    using subConditions_Set_Ready [of "UnknownCondition ReadyCondition r m" cs]
    by (simp add: subConditions_def MarkUnknown_def UnknownCondition_def)
  then show ?thesis by (simp add: Mirror_def)
qed

lemma Get_Ready_recomputeReady:
  "Get ReadyCondition (recomputeReady cs) =
     (if AllSubConditionIsTrue cs then Some (TrueCondition ReadyCondition (Text ''ReadyMessage''))
      else case mostSevere (subConditions cs) of
             None \<Rightarrow> Some (UnknownCondition ReadyCondition InitReason (Text ''ReadyInitMessage''))
           | Some c \<Rightarrow> Some (c\<lparr>Type := ReadyCondition\<rparr>))"
proof (cases "AllSubConditionIsTrue cs")
  case True
  then show ?thesis
    by (simp add: recomputeReady_def MarkTrue_def Get_Set_same TrueCondition_def)
next
  case False
  show ?thesis
  proof (cases "mostSevere (subConditions cs)")
    case None
    with False show ?thesis
      by (simp add: recomputeReady_def Let_def Mirror_MarkUnknown)
         (simp add: MarkUnknown_def Get_Set_same UnknownCondition_def)
  next
    case (Some c)
    with False show ?thesis
      by (simp add: recomputeReady_def Let_def Mirror_MarkUnknown Get_Set_same)
  qed
qed

lemma recomputeReady_iff:
  "IsTrue ReadyCondition (recomputeReady cs) \<longleftrightarrow> AllSubConditionIsTrue (recomputeReady cs)"
proof -
  have a: "AllSubConditionIsTrue (recomputeReady cs) = AllSubConditionIsTrue cs"
    by (simp add: AllSubConditionIsTrue_def subConditions_recomputeReady)
  show ?thesis
  proof (cases "AllSubConditionIsTrue cs")
    case True
    then show ?thesis
      by (simp add: a IsTrue_def Get_Ready_recomputeReady TrueCondition_def)
  next
    case False
    then have ne: "subConditions cs \<noteq> []" by (auto simp: AllSubConditionIsTrue_def)
    then obtain c where c: "mostSevere (subConditions cs) = Some c"
      using mostSevere_None [of "subConditions cs"] by (cases "mostSevere (subConditions cs)") auto
    have "Status c \<noteq> ConditionTrue"
      using mostSevere_not_True [OF c] False by (simp add: AllSubConditionIsTrue_def)
    with False c show ?thesis
      by (simp add: a IsTrue_def Get_Ready_recomputeReady)
  qed
qed


lemmas stage_defs = initStatus_def reconcileRbac_def hashInputs_def checkInputs_def
  generateConfigMaps_def configMaps_def hashDrift_def endpoints_def workload_def

lemmas prefix_defs = beforeInputs_def beforeConfig_def beforeHash_def beforeEndpoints_def
  beforeWorkload_def andThen_def

lemma Reconcile_deferred:
  assumes "r_Get w = Found i" and "NewHelper w = None" and "body w (start i) = (r, p)"
  shows "Reconcile w =
     \<lparr>ret = (case PatchInstance w of
               None \<Rightarrow> r
             | Some e \<Rightarrow> (case r of Return res x \<Rightarrow> Return res (Some e) | Panic \<Rightarrow> Panic)),
      final = Some ((inst p)\<lparr>Status_Conditions := Some (recomputeReady (conds (inst p)))\<rparr>),
      hashEnv = inputHashEnv p,
      trace = calls p @ [CallPatchInstance ((inst p)\<lparr>Status_Conditions := Some (recomputeReady (conds (inst p)))\<rparr>)]\<rparr>"
  using assms
  by (simp add: Reconcile_def deferred_def Let_def called_def updConditions_def
      split: option.splits returned.splits)


subsection \<open>The calls of each stage\<close>

lemma stagePass_andThen:
  "stagePass (andThen s f) = (case s of Inl rp \<Rightarrow> snd rp | Inr p \<Rightarrow> stagePass (f p))"
  by (simp add: stagePass_def andThen_def split: sum.splits)

lemma stagePass_Inr: "s = Inr p \<Longrightarrow> stagePass s = p"
  by (simp add: stagePass_def)

lemma initStatus_calls: "calls (stagePass (initStatus p)) = calls p"
  by (simp add: initStatus_def stagePass_def Let_def split: option.splits)

lemma reconcileRbac_calls:
  "calls (stagePass (reconcileRbac w p)) = calls p @ [CallReconcileRbac]"
  by (simp add: reconcileRbac_def stagePass_def Let_def called_def updConditions_def
      split: prod.splits)

lemma hashInputs_calls:
  "set (calls (fst (hashInputs w p))) \<subseteq>
     set (calls p) \<union> {CallValidateCertSecret, CallValidateCACertSecret}"
  by (auto simp: hashInputs_def Let_def called_def split: prod.splits if_splits)

lemma checkInputs_calls:
  "calls (stagePass (checkInputs w p)) = calls (fst (hashInputs w p))"
  by (simp add: checkInputs_def stagePass_def Let_def updConditions_def Error_of_def
      split: prod.splits option.splits)

lemma configMaps_calls:
  "calls (stagePass (configMaps w p)) = calls p @ [CallEnsureConfigMaps]"
  by (auto simp: configMaps_def generateConfigMaps_def stagePass_def Let_def updConditions_def
      called_def Error_of_def split: prod.splits option.splits)

lemma hashDrift_calls: "calls (stagePass (hashDrift w p)) = calls p"
  by (simp add: hashDrift_def stagePass_def Let_def split: prod.splits)

lemma endpoints_calls:
  "set (calls (stagePass (endpoints w p))) \<subseteq>
     set (calls p) \<union> {CallHeadlessCreateOrPatch, CallServiceCreateOrPatch}"
  by (auto simp: endpoints_def stagePass_def Let_def updConditions_def called_def Error_of_def
      split: prod.splits option.splits)

lemma workload_calls:
  "calls (snd (workload w p)) = calls p @ [CallStatefulSetCreateOrPatch]"
  by (simp add: workload_def Let_def updConditions_def called_def split: prod.splits)

lemma beforeInputs_calls:
  "set (calls (stagePass (beforeInputs w (start i)))) \<subseteq> {CallGet, CallReconcileRbac}"
proof (cases "initStatus (start i)")
  case (Inl rp)
  then have "stagePass (beforeInputs w (start i)) = stagePass (initStatus (start i))"
    by (simp add: beforeInputs_def andThen_def stagePass_def)
  then show ?thesis by (simp add: initStatus_calls start_def)
next
  case (Inr p)
  then have "calls p = [CallGet]"
    using initStatus_calls [of "start i"] by (simp add: stagePass_def start_def)
  moreover have "stagePass (beforeInputs w (start i)) = stagePass (reconcileRbac w p)"
    using Inr by (simp add: beforeInputs_def andThen_def)
  ultimately show ?thesis by (simp add: reconcileRbac_calls)
qed

lemma beforeConfig_calls:
  "set (calls (stagePass (beforeConfig w (start i)))) \<subseteq>
     {CallGet, CallReconcileRbac, CallValidateCertSecret, CallValidateCACertSecret}"
proof (cases "beforeInputs w (start i)")
  case (Inl rp)
  then show ?thesis
    using beforeInputs_calls [of w i] by (auto simp: beforeConfig_def andThen_def stagePass_def)
next
  case (Inr p)
  then have "set (calls p) \<subseteq> {CallGet, CallReconcileRbac}"
    using beforeInputs_calls [of w i] by (simp add: stagePass_def)
  moreover have "stagePass (beforeConfig w (start i)) = stagePass (checkInputs w p)"
    using Inr by (simp add: beforeConfig_def andThen_def)
  ultimately show ?thesis
    using hashInputs_calls [of w p] by (auto simp: checkInputs_calls)
qed

lemma beforeHash_calls:
  "set (calls (stagePass (beforeHash w (start i)))) \<subseteq>
     {CallGet, CallReconcileRbac, CallValidateCertSecret, CallValidateCACertSecret,
      CallEnsureConfigMaps}"
proof (cases "beforeConfig w (start i)")
  case (Inl rp)
  then show ?thesis
    using beforeConfig_calls [of w i] by (auto simp: beforeHash_def andThen_def stagePass_def)
next
  case (Inr p)
  then have "set (calls p) \<subseteq>
      {CallGet, CallReconcileRbac, CallValidateCertSecret, CallValidateCACertSecret}"
    using beforeConfig_calls [of w i] by (simp add: stagePass_def)
  moreover have "stagePass (beforeHash w (start i)) = stagePass (configMaps w p)"
    using Inr by (simp add: beforeHash_def andThen_def)
  ultimately show ?thesis by (auto simp: configMaps_calls)
qed

lemma beforeEndpoints_calls:
  "set (calls (stagePass (beforeEndpoints w (start i)))) \<subseteq>
     {CallGet, CallReconcileRbac, CallValidateCertSecret, CallValidateCACertSecret,
      CallEnsureConfigMaps}"
proof (cases "beforeHash w (start i)")
  case (Inl rp)
  then show ?thesis
    using beforeHash_calls [of w i] by (auto simp: beforeEndpoints_def andThen_def stagePass_def)
next
  case (Inr p)
  then have "stagePass (beforeHash w (start i)) = p" by (simp add: stagePass_def)
  moreover have "stagePass (beforeEndpoints w (start i)) = stagePass (hashDrift w p)"
    using Inr by (simp add: beforeEndpoints_def andThen_def)
  ultimately show ?thesis using beforeHash_calls [of w i] by (simp add: hashDrift_calls)
qed

lemma beforeWorkload_calls:
  "set (calls (stagePass (beforeWorkload w (start i)))) \<subseteq>
     {CallGet, CallReconcileRbac, CallValidateCertSecret, CallValidateCACertSecret,
      CallEnsureConfigMaps, CallHeadlessCreateOrPatch, CallServiceCreateOrPatch}"
proof (cases "beforeEndpoints w (start i)")
  case (Inl rp)
  then show ?thesis
    using beforeEndpoints_calls [of w i] by (auto simp: beforeWorkload_def andThen_def stagePass_def)
next
  case (Inr p)
  then have "set (calls p) \<subseteq>
      {CallGet, CallReconcileRbac, CallValidateCertSecret, CallValidateCACertSecret,
       CallEnsureConfigMaps}"
    using beforeEndpoints_calls [of w i] by (simp add: stagePass_def)
  moreover have "stagePass (beforeWorkload w (start i)) = stagePass (endpoints w p)"
    using Inr by (simp add: beforeWorkload_def andThen_def)
  ultimately show ?thesis using endpoints_calls [of w p] by auto
qed

lemma body_calls:
  "set (calls (snd (body w (start i)))) \<subseteq>
     {CallGet, CallReconcileRbac, CallValidateCertSecret, CallValidateCACertSecret,
      CallEnsureConfigMaps, CallHeadlessCreateOrPatch, CallServiceCreateOrPatch,
      CallStatefulSetCreateOrPatch}"
proof (cases "beforeWorkload w (start i)")
  case (Inl rp)
  then show ?thesis
    using beforeWorkload_calls [of w i] by (auto simp: body_def stagePass_def)
next
  case (Inr p)
  then have "set (calls p) \<subseteq>
      {CallGet, CallReconcileRbac, CallValidateCertSecret, CallValidateCACertSecret,
       CallEnsureConfigMaps, CallHeadlessCreateOrPatch, CallServiceCreateOrPatch}"
    using beforeWorkload_calls [of w i] by (simp add: stagePass_def)
  moreover have "snd (body w (start i)) = snd (workload w p)"
    using Inr by (simp add: body_def)
  ultimately show ?thesis by (auto simp: workload_calls)
qed

lemma body_no_patch: "filter isPatch (calls (snd (body w (start i)))) = []"
proof -
  have "\<forall>c \<in> set (calls (snd (body w (start i)))). \<not> isPatch c"
    using body_calls [of w i] by auto
  then show ?thesis by (simp add: filter_empty_conv)
qed


subsection \<open>Where the body returns\<close>

lemma body_initStatus_Inl: "initStatus p = Inl rp \<Longrightarrow> body w p = rp"
  by (simp add: body_def prefix_defs)

lemma body_beforeInputs_Inl: "beforeInputs w p = Inl rp \<Longrightarrow> body w p = rp"
  by (simp add: body_def beforeConfig_def beforeHash_def beforeEndpoints_def beforeWorkload_def
      andThen_def)

lemma body_checkInputs_Inl:
  "beforeInputs w p0 = Inr p \<Longrightarrow> checkInputs w p = Inl rp \<Longrightarrow> body w p0 = rp"
  by (simp add: body_def beforeConfig_def beforeHash_def beforeEndpoints_def beforeWorkload_def
      andThen_def)

lemma body_configMaps_Inl:
  "beforeConfig w p0 = Inr p \<Longrightarrow> configMaps w p = Inl rp \<Longrightarrow> body w p0 = rp"
  by (simp add: body_def beforeHash_def beforeEndpoints_def beforeWorkload_def andThen_def)

lemma body_hashDrift_Inl:
  "beforeHash w p0 = Inr p \<Longrightarrow> hashDrift w p = Inl rp \<Longrightarrow> body w p0 = rp"
  by (simp add: body_def beforeEndpoints_def beforeWorkload_def andThen_def)

lemma body_endpoints_Inl:
  "beforeEndpoints w p0 = Inr p \<Longrightarrow> endpoints w p = Inl rp \<Longrightarrow> body w p0 = rp"
  by (simp add: body_def beforeWorkload_def andThen_def)

lemma body_workload: "beforeWorkload w p0 = Inr p \<Longrightarrow> body w p0 = workload w p"
  by (simp add: body_def)

subsection \<open>Evaluating the pass on the worlds above\<close>

lemmas eval_defs = Reconcile_def deferred_def body_def prefix_defs stage_defs start_def
  called_def updConditions_def conds_def recomputeReady_def Mirror_def MarkTrue_def MarkUnknown_def
  AllSubConditionIsTrue_def subConditions_def Init_def CreateList_def
  declaredConditions_def TrueCondition_def FalseCondition_def UnknownCondition_def Error_of_def SetHash_def Enabled_def
  exposeServiceError_def emptyResult_def InputHashName_def IsTrue_def Get_def stagePass_def
  redisNew_def allTrue_def redisReady_def redisCA_def redisTLS_def redisDrift_def redisStale_def
  okWorld_def helperFails_def notFound_def patchFails_def certFails_def caFails_def
  headlessFails_def
  serviceFails_def later_def statefulsetFails_def statefulsetAndPatchFail_def noReplicas_def
  rbacPending_def

section \<open>The claims\<close>

text \<open>
  C7 (amended). On every exit path after the resource has been fetched and the helper built
  (the body returning or panicking), the deferred step recomputes the Ready condition and
  calls \<open>PatchInstance\<close> exactly once, as the last call of the pass; when the patch succeeds
  the pass ends as the body did, and when it fails and the body returned, the patch error is
  the returned error and the result is the body's. On the three exits that come before the
  \<open>defer\<close> statement (resource not found, fetch error, helper construction error) nothing is
  recomputed and nothing is patched: the fetch is the only call.
\<close>

theorem finalization_after_helper_only:
  "(r_Get w = Found i \<and> NewHelper w = None \<and> body w (start i) = (r, p) \<longrightarrow>
      final (Reconcile w) = Some (inst (updConditions recomputeReady p)) \<and>
      trace (Reconcile w) = calls p @ [CallPatchInstance (inst (updConditions recomputeReady p))] \<and>
      filter isPatch (trace (Reconcile w)) = [CallPatchInstance (inst (updConditions recomputeReady p))] \<and>
      (PatchInstance w = None \<longrightarrow> ret (Reconcile w) = r) \<and>
      (\<forall>e. PatchInstance w = Some e \<longrightarrow>
         ret (Reconcile w) = (case r of Return res x \<Rightarrow> Return res (Some e) | Panic \<Rightarrow> Panic))) \<and>
   ((\<forall>j. r_Get w \<noteq> Found j) \<or> NewHelper w \<noteq> None \<longrightarrow>
      trace (Reconcile w) = [CallGet] \<and> filter isPatch (trace (Reconcile w)) = [])"
proof (intro conjI impI)
  assume a: "r_Get w = Found i \<and> NewHelper w = None \<and> body w (start i) = (r, p)"
  then have R: "Reconcile w =
     \<lparr>ret = (case PatchInstance w of
               None \<Rightarrow> r
             | Some e \<Rightarrow> (case r of Return res x \<Rightarrow> Return res (Some e) | Panic \<Rightarrow> Panic)),
      final = Some ((inst p)\<lparr>Status_Conditions := Some (recomputeReady (conds (inst p)))\<rparr>),
      hashEnv = inputHashEnv p,
      trace = calls p @ [CallPatchInstance ((inst p)\<lparr>Status_Conditions := Some (recomputeReady (conds (inst p)))\<rparr>)]\<rparr>"
    using Reconcile_deferred [of w i r p] by simp
  have np: "filter isPatch (calls p) = []" using body_no_patch [of w i] a by simp
  show "final (Reconcile w) = Some (inst (updConditions recomputeReady p))"
    by (simp add: R updConditions_def)
  show "trace (Reconcile w) = calls p @ [CallPatchInstance (inst (updConditions recomputeReady p))]"
    by (simp add: R updConditions_def)
  show "filter isPatch (trace (Reconcile w)) = [CallPatchInstance (inst (updConditions recomputeReady p))]"
    by (simp add: R updConditions_def np)
  show "PatchInstance w = None \<Longrightarrow> ret (Reconcile w) = r" by (simp add: R)
  show "\<forall>e. PatchInstance w = Some e \<longrightarrow>
         ret (Reconcile w) = (case r of Return res x \<Rightarrow> Return res (Some e) | Panic \<Rightarrow> Panic)"
    by (simp add: R)
next
  assume "(\<forall>j. r_Get w \<noteq> Found j) \<or> NewHelper w \<noteq> None"
  then show "trace (Reconcile w) = [CallGet]"
    by (auto simp: Reconcile_def split: get_result.splits option.splits)
next
  assume "(\<forall>j. r_Get w \<noteq> Found j) \<or> NewHelper w \<noteq> None"
  then show "filter isPatch (trace (Reconcile w)) = []"
    by (auto simp: Reconcile_def split: get_result.splits option.splits)
qed

text \<open>
  The stateful set upsert times out and the status patch meets a conflict: the body means
  to return the timeout, the pass returns the conflict, after one patch.
\<close>

theorem finalization_after_helper_only_witness:
  "r_Get statefulsetAndPatchFail = Found redisReady \<and>
   NewHelper statefulsetAndPatchFail = None \<and>
   fst (body statefulsetAndPatchFail (start redisReady)) = Return later (Some (Error ''timeout'')) \<and>
   PatchInstance statefulsetAndPatchFail = Some (Error ''conflict'') \<and>
   ret (Reconcile statefulsetAndPatchFail) = Return later (Some (Error ''conflict'')) \<and>
   length (filter isPatch (trace (Reconcile statefulsetAndPatchFail))) = 1"
proof -
  let ?w = statefulsetAndPatchFail
  let ?b = "body ?w (start redisReady)"
  have g: "r_Get ?w = Found redisReady" and h: "NewHelper ?w = None"
    and pf: "PatchInstance ?w = Some (Error ''conflict'')"
    by (simp_all add: statefulsetAndPatchFail_def statefulsetFails_def okWorld_def)
  have b: "fst ?b = Return later (Some (Error ''timeout''))"
    by (simp add: eval_defs)
  have "?b = (fst ?b, snd ?b)" by simp
  with g h finalization_after_helper_only [of ?w redisReady "fst ?b" "snd ?b"]
  have "filter isPatch (trace (Reconcile ?w)) =
          [CallPatchInstance (inst (updConditions recomputeReady (snd ?b)))]"
    and "\<forall>e. PatchInstance ?w = Some e \<longrightarrow>
           ret (Reconcile ?w) = (case fst ?b of Return res x \<Rightarrow> Return res (Some e) | Panic \<Rightarrow> Panic)"
    by blast+
  with g h b pf show ?thesis by simp
qed

text \<open>
  C7 as stated fails when the resource is not found: the pass returns at line 114, before
  the \<open>defer\<close> statement, and patches nothing.
\<close>

theorem not_found_skips_finalization:
  "trace (Reconcile notFound) = [CallGet] \<and> filter isPatch (trace (Reconcile notFound)) = [] \<and>
   final (Reconcile notFound) = None \<and> ret (Reconcile notFound) = Return emptyResult None"
  by (simp add: Reconcile_def notFound_def okWorld_def)

text \<open>
  C1 (amended). At the end of every pass that has fetched the resource and built the helper,
  on every exit path from there on, the conditions the pass leaves (and hands to the status
  patch) are those of the body with the Ready condition recomputed: the sub-conditions are
  untouched, Ready is True if and only if every other condition of the ledger is True, and
  when they are not all True, Ready has been reset to Unknown and then set to the mirror of
  the most severe sub-condition, which is not True. So a sub-condition that the body leaves
  False keeps Ready from being True in the same pass. The three exits that come before the
  \<open>defer\<close> statement recompute nothing: when the helper cannot be built the pass ends with
  the resource as it was fetched, and when the resource is not found or the fetch fails the
  pass ends with no resource at all.
\<close>

theorem Ready_iff_all_subconditions:
  "(r_Get w = Found i \<and> NewHelper w = None \<and> body w (start i) = (r, p) \<longrightarrow>
     (let cs = conds (inst p); cs' = recomputeReady cs in
      map_option conds (final (Reconcile w)) = Some cs' \<and>
      subConditions cs' = subConditions cs \<and>
      (IsTrue ReadyCondition cs' \<longleftrightarrow> AllSubConditionIsTrue cs') \<and>
      (\<not> AllSubConditionIsTrue cs \<longrightarrow>
         (\<exists>c. mostSevere (subConditions cs) = Some c \<and> Status c \<noteq> ConditionTrue \<and>
              Get ReadyCondition cs' = Some (c\<lparr>Type := ReadyCondition\<rparr>))) \<and>
      (\<forall>c \<in> set cs. Type c \<noteq> ReadyCondition \<and> Status c = ConditionFalse \<longrightarrow>
         \<not> IsTrue ReadyCondition cs'))) \<and>
   (r_Get w = Found i \<and> NewHelper w \<noteq> None \<longrightarrow>
      final (Reconcile w) = Some i \<and> trace (Reconcile w) = [CallGet]) \<and>
   ((\<forall>j. r_Get w \<noteq> Found j) \<longrightarrow>
      final (Reconcile w) = None \<and> trace (Reconcile w) = [CallGet])"
proof (intro conjI impI)
  assume asm: "r_Get w = Found i \<and> NewHelper w = None \<and> body w (start i) = (r, p)"
  let ?cs = "conds (inst p)"
  let ?cs' = "recomputeReady ?cs"
  have f: "map_option conds (final (Reconcile w)) = Some ?cs'"
    using Reconcile_deferred [of w i r p] asm by (simp add: conds_def)
  have s: "subConditions ?cs' = subConditions ?cs" by (rule subConditions_recomputeReady)
  have a: "AllSubConditionIsTrue ?cs' = AllSubConditionIsTrue ?cs"
    by (simp add: AllSubConditionIsTrue_def s)
  have iff: "IsTrue ReadyCondition ?cs' \<longleftrightarrow> AllSubConditionIsTrue ?cs'"
    by (rule recomputeReady_iff)
  have m: "\<exists>c. mostSevere (subConditions ?cs) = Some c \<and> Status c \<noteq> ConditionTrue \<and>
             Get ReadyCondition ?cs' = Some (c\<lparr>Type := ReadyCondition\<rparr>)"
    if n: "\<not> AllSubConditionIsTrue ?cs"
  proof -
    from n have "subConditions ?cs \<noteq> []" by (auto simp: AllSubConditionIsTrue_def)
    then obtain c where c: "mostSevere (subConditions ?cs) = Some c"
      using mostSevere_None [of "subConditions ?cs"] by (cases "mostSevere (subConditions ?cs)") auto
    have "Status c \<noteq> ConditionTrue"
      using mostSevere_not_True [OF c] n by (simp add: AllSubConditionIsTrue_def)
    moreover have "Get ReadyCondition ?cs' = Some (c\<lparr>Type := ReadyCondition\<rparr>)"
      using n c by (simp add: Get_Ready_recomputeReady)
    ultimately show ?thesis using c by blast
  qed
  have fl: "\<not> IsTrue ReadyCondition ?cs'"
    if "c \<in> set ?cs" and "Type c \<noteq> ReadyCondition \<and> Status c = ConditionFalse" for c
  proof -
    from that have "c \<in> set (subConditions ?cs)" by (simp add: subConditions_def)
    moreover have "Status c \<noteq> ConditionTrue" using that by simp
    ultimately have "\<not> AllSubConditionIsTrue ?cs"
      unfolding AllSubConditionIsTrue_def list_all_iff by blast
    with iff a show ?thesis by simp
  qed
  show "let cs = conds (inst p); cs' = recomputeReady cs in
      map_option conds (final (Reconcile w)) = Some cs' \<and>
      subConditions cs' = subConditions cs \<and>
      (IsTrue ReadyCondition cs' \<longleftrightarrow> AllSubConditionIsTrue cs') \<and>
      (\<not> AllSubConditionIsTrue cs \<longrightarrow>
         (\<exists>c. mostSevere (subConditions cs) = Some c \<and> Status c \<noteq> ConditionTrue \<and>
              Get ReadyCondition cs' = Some (c\<lparr>Type := ReadyCondition\<rparr>))) \<and>
      (\<forall>c \<in> set cs. Type c \<noteq> ReadyCondition \<and> Status c = ConditionFalse \<longrightarrow>
         \<not> IsTrue ReadyCondition cs')"
    unfolding Let_def using f s iff m fl by blast
next
  assume "r_Get w = Found i \<and> NewHelper w \<noteq> None"
  then show "final (Reconcile w) = Some i"
    by (auto simp: Reconcile_def split: get_result.splits option.splits)
next
  assume "r_Get w = Found i \<and> NewHelper w \<noteq> None"
  then show "trace (Reconcile w) = [CallGet]"
    by (auto simp: Reconcile_def split: get_result.splits option.splits)
next
  assume "\<forall>j. r_Get w \<noteq> Found j"
  then show "final (Reconcile w) = None"
    by (cases "r_Get w") (auto simp: Reconcile_def)
next
  assume "\<forall>j. r_Get w \<noteq> Found j"
  then show "trace (Reconcile w) = [CallGet]"
    by (cases "r_Get w") (auto simp: Reconcile_def)
qed

text \<open>
  The certificate secret cannot be validated: the body marks the TLS input condition False,
  and the pass ends with Ready False, the mirror of that condition. Where the helper cannot
  be built the pass ends with the resource it fetched, and where the fetch finds nothing,
  with none.
\<close>

theorem Ready_iff_all_subconditions_witness:
  "r_Get certFails = Found redisTLS \<and> NewHelper certFails = None \<and>
   Get TLSInputReadyCondition (conds (inst (snd (body certFails (start redisTLS))))) =
     Some (FalseCondition TLSInputReadyCondition ErrorReason SeverityWarning
             (Sprintf ''TLSInputErrorMessage'' [''secret not found''])) \<and>
   \<not> AllSubConditionIsTrue (conds (inst (snd (body certFails (start redisTLS))))) \<and>
   map_option (IsTrue ReadyCondition \<circ> conds) (final (Reconcile certFails)) = Some False \<and>
   map_option (Get ReadyCondition \<circ> conds) (final (Reconcile certFails)) =
     Some (Some (FalseCondition ReadyCondition ErrorReason SeverityWarning
             (Sprintf ''TLSInputErrorMessage'' [''secret not found'']))) \<and>
   r_Get helperFails = Found redisStale \<and>
   NewHelper helperFails = Some (Error ''no kind is registered'') \<and>
   final (Reconcile helperFails) = Some redisStale \<and>
   r_Get notFound = NotFound \<and>
   final (Reconcile notFound) = None"
proof -
  let ?w = certFails
  let ?b = "body ?w (start redisTLS)"
  let ?cs = "conds (inst (snd ?b))"
  have g: "r_Get ?w = Found redisTLS" and h: "NewHelper ?w = None"
    by (simp_all add: certFails_def okWorld_def)
  have cs: "?cs = Set (FalseCondition TLSInputReadyCondition ErrorReason SeverityWarning
             (Sprintf ''TLSInputErrorMessage'' [''secret not found''])) allTrue"
    by (simp add: eval_defs)
  have t: "Get TLSInputReadyCondition ?cs =
     Some (FalseCondition TLSInputReadyCondition ErrorReason SeverityWarning
             (Sprintf ''TLSInputErrorMessage'' [''secret not found'']))"
    by (simp add: cs Get_Set_same FalseCondition_def)
  have n: "\<not> AllSubConditionIsTrue ?cs"
    by (simp add: cs AllSubConditionIsTrue_def subConditions_def allTrue_def TrueCondition_def
        FalseCondition_def)
  have ms: "mostSevere (subConditions ?cs) =
     Some (FalseCondition TLSInputReadyCondition ErrorReason SeverityWarning
             (Sprintf ''TLSInputErrorMessage'' [''secret not found'']))"
    by (simp add: cs subConditions_def allTrue_def TrueCondition_def FalseCondition_def)
  have "r_Get ?w = Found redisTLS \<and> NewHelper ?w = None \<and> ?b = (fst ?b, snd ?b)"
    using g h by simp
  from Ready_iff_all_subconditions [of ?w redisTLS "fst ?b" "snd ?b", THEN conjunct1, rule_format, OF this]
  have f: "map_option conds (final (Reconcile ?w)) = Some (recomputeReady ?cs)"
    and i: "IsTrue ReadyCondition (recomputeReady ?cs) \<longleftrightarrow> AllSubConditionIsTrue (recomputeReady ?cs)"
    and s: "subConditions (recomputeReady ?cs) = subConditions ?cs"
    and m: "\<not> AllSubConditionIsTrue ?cs \<longrightarrow>
        (\<exists>c. mostSevere (subConditions ?cs) = Some c \<and> Status c \<noteq> ConditionTrue \<and>
             Get ReadyCondition (recomputeReady ?cs) = Some (c\<lparr>Type := ReadyCondition\<rparr>))"
    unfolding Let_def by blast+
  from f obtain i' where i': "final (Reconcile ?w) = Some i'" "conds i' = recomputeReady ?cs"
    by auto
  have nr: "\<not> IsTrue ReadyCondition (recomputeReady ?cs)"
    using i s n by (simp add: AllSubConditionIsTrue_def)
  have gr: "Get ReadyCondition (recomputeReady ?cs) =
      Some (FalseCondition ReadyCondition ErrorReason SeverityWarning
             (Sprintf ''TLSInputErrorMessage'' [''secret not found'']))"
    using m n ms by (auto simp: FalseCondition_def)
  have hg: "r_Get helperFails = Found redisStale"
    and hh: "NewHelper helperFails = Some (Error ''no kind is registered'')"
    by (simp_all add: helperFails_def okWorld_def)
  have "r_Get helperFails = Found redisStale \<and> NewHelper helperFails \<noteq> None"
    using hg hh by simp
  from Ready_iff_all_subconditions [of helperFails redisStale, THEN conjunct2, THEN conjunct1,
      rule_format, OF this]
  have hf: "final (Reconcile helperFails) = Some redisStale" by (rule conjunct1)
  have ng: "r_Get notFound = NotFound" by (simp add: notFound_def okWorld_def)
  then have "\<forall>j. r_Get notFound \<noteq> Found j" by simp
  from Ready_iff_all_subconditions [of notFound, THEN conjunct2, THEN conjunct2,
      THEN mp, OF this]
  have nf: "final (Reconcile notFound) = None" by (rule conjunct1)
  from g h t n i' nr gr hg hh hf ng nf show ?thesis by simp
qed

text \<open>
  C1 as stated fails on the exit of line 128: when the helper cannot be built the pass
  returns before the \<open>defer\<close> statement, and a Ready condition that was True beside a False
  sub-condition is still so at the end of the pass.
\<close>

theorem helper_error_leaves_Ready_stale:
  "ret (Reconcile helperFails) = Return emptyResult (Some (Error ''no kind is registered'')) \<and>
   trace (Reconcile helperFails) = [CallGet] \<and>
   final (Reconcile helperFails) = Some redisStale \<and>
   IsTrue ReadyCondition (conds redisStale) \<and>
   \<not> AllSubConditionIsTrue (conds redisStale)"
  by (simp add: eval_defs)

subsection \<open>What the stages before the hash comparison leave alone\<close>

lemma initStatus_frame:
  "Spec_TLS (inst (stagePass (initStatus p))) = Spec_TLS (inst p) \<and>
   Status_Hash (inst (stagePass (initStatus p))) = Status_Hash (inst p)"
  by (simp add: initStatus_def stagePass_def Let_def split: option.splits)

lemma reconcileRbac_frame:
  "Spec_TLS (inst (stagePass (reconcileRbac w p))) = Spec_TLS (inst p) \<and>
   Status_Hash (inst (stagePass (reconcileRbac w p))) = Status_Hash (inst p)"
  by (simp add: reconcileRbac_def stagePass_def Let_def called_def updConditions_def
      split: prod.splits)

lemma hashInputs_inst: "inst (fst (hashInputs w p)) = inst p"
  by (simp add: hashInputs_def Let_def called_def split: prod.splits)



lemma beforeInputs_frame:
  assumes "beforeInputs w (start i) = Inr p"
  shows "Spec_TLS (inst p) = Spec_TLS i \<and> Status_Hash (inst p) = Status_Hash i"
proof (cases "initStatus (start i)")
  case (Inl rp)
  with assms show ?thesis by (simp add: beforeInputs_def andThen_def)
next
  case (Inr p0)
  then have a: "Spec_TLS (inst p0) = Spec_TLS i \<and> Status_Hash (inst p0) = Status_Hash i"
    using initStatus_frame [of "start i"] by (simp add: stagePass_def start_def)
  from Inr assms have "reconcileRbac w p0 = Inr p" by (simp add: beforeInputs_def andThen_def)
  then show ?thesis using reconcileRbac_frame [of w p0] a by (simp add: stagePass_def)
qed






lemma recomputeReady_declared:
  "recomputeReady (Init declaredConditions []) =
     [UnknownCondition ReadyCondition InitReason (Text ''InputReadyInitMessage''),
      UnknownCondition TLSInputReadyCondition InitReason (Text ''InputReadyInitMessage''),
      UnknownCondition ExposeServiceReadyCondition InitReason (Text ''ExposeServiceReadyInitMessage''),
      UnknownCondition ServiceConfigReadyCondition InitReason (Text ''ServiceConfigReadyInitMessage''),
      UnknownCondition DeploymentReadyCondition InitReason (Text ''DeploymentReadyInitMessage''),
      UnknownCondition ServiceAccountReadyCondition InitReason (Text ''ServiceAccountReadyInitMessage''),
      UnknownCondition RoleReadyCondition InitReason (Text ''RoleReadyInitMessage''),
      UnknownCondition RoleBindingReadyCondition InitReason (Text ''RoleBindingReadyInitMessage'')]"
  by (simp add: declaredConditions_def Init_def CreateList_def recomputeReady_def
      UnknownCondition_def AllSubConditionIsTrue_def subConditions_def MarkUnknown_def Mirror_def)

text \<open>
  C8 (amended). For every pass whose resource has no condition list yet, the body sets the
  Ready condition and the seven declared conditions to Unknown and returns; the pass makes
  no call but the fetch and the status patch, which is handed the resource with these
  eight Unknown conditions and nothing else changed; it returns the empty result, with no
  error when the patch succeeds and with the patch's error when it fails.
\<close>

theorem first_observation_initialises:
  assumes "r_Get w = Found i" and "NewHelper w = None" and "Status_Conditions i = None"
  shows "\<exists>cs. final (Reconcile w) = Some (i\<lparr>Status_Conditions := Some cs\<rparr>) \<and>
     trace (Reconcile w) = [CallGet, CallPatchInstance (i\<lparr>Status_Conditions := Some cs\<rparr>)] \<and>
     map Type cs =
       [ReadyCondition, TLSInputReadyCondition, ExposeServiceReadyCondition,
        ServiceConfigReadyCondition, DeploymentReadyCondition, ServiceAccountReadyCondition,
        RoleReadyCondition, RoleBindingReadyCondition] \<and>
     list_all (\<lambda>c. Status c = ConditionUnknown) cs \<and>
     ret (Reconcile w) = Return emptyResult (PatchInstance w)"
proof -
  let ?p = "(start i)\<lparr>inst := i\<lparr>Status_Conditions := Some (Init declaredConditions [])\<rparr>\<rparr>"
  let ?cs = "recomputeReady (Init declaredConditions [])"
  have "initStatus (start i) = Inl (Return emptyResult None, ?p)"
    using assms(3) by (simp add: initStatus_def start_def)
  then have b: "body w (start i) = (Return emptyResult None, ?p)"
    by (rule body_initStatus_Inl)
  note R = Reconcile_deferred [OF assms(1,2) b]
  have f: "final (Reconcile w) = Some (i\<lparr>Status_Conditions := Some ?cs\<rparr>)"
    by (simp add: R conds_def start_def)
  have t: "trace (Reconcile w) = [CallGet, CallPatchInstance (i\<lparr>Status_Conditions := Some ?cs\<rparr>)]"
    by (simp add: R conds_def start_def)
  have r: "ret (Reconcile w) = Return emptyResult (PatchInstance w)"
    by (simp add: R split: option.splits)
  have ty: "map Type ?cs =
       [ReadyCondition, TLSInputReadyCondition, ExposeServiceReadyCondition,
        ServiceConfigReadyCondition, DeploymentReadyCondition, ServiceAccountReadyCondition,
        RoleReadyCondition, RoleBindingReadyCondition]"
    by (simp add: recomputeReady_declared UnknownCondition_def)
  have un: "list_all (\<lambda>c. Status c = ConditionUnknown) ?cs"
    by (simp add: recomputeReady_declared UnknownCondition_def)
  show ?thesis
  proof (intro exI conjI)
    show "final (Reconcile w) = Some (i\<lparr>Status_Conditions := Some ?cs\<rparr>)" by (rule f)
    show "trace (Reconcile w) = [CallGet, CallPatchInstance (i\<lparr>Status_Conditions := Some ?cs\<rparr>)]"
      by (rule t)
    show "map Type ?cs =
       [ReadyCondition, TLSInputReadyCondition, ExposeServiceReadyCondition,
        ServiceConfigReadyCondition, DeploymentReadyCondition, ServiceAccountReadyCondition,
        RoleReadyCondition, RoleBindingReadyCondition]" by (rule ty)
    show "list_all (\<lambda>c. Status c = ConditionUnknown) ?cs" by (rule un)
    show "ret (Reconcile w) = Return emptyResult (PatchInstance w)" by (rule r)
  qed
qed

text \<open>A new resource in a world where everything succeeds.\<close>

theorem first_observation_initialises_witness:
  "r_Get (okWorld redisNew) = Found redisNew \<and> NewHelper (okWorld redisNew) = None \<and>
   Status_Conditions redisNew = None \<and>
   length (trace (Reconcile (okWorld redisNew))) = 2 \<and>
   map Status (conds (the (final (Reconcile (okWorld redisNew))))) = replicate 8 ConditionUnknown \<and>
   ret (Reconcile (okWorld redisNew)) = Return emptyResult None"
proof -
  let ?w = "okWorld redisNew"
  have g: "r_Get ?w = Found redisNew" and h: "NewHelper ?w = None"
    and pi: "PatchInstance ?w = None"
    by (simp_all add: okWorld_def)
  have n: "Status_Conditions redisNew = None" by (simp add: redisNew_def)
  from first_observation_initialises [OF g h n] obtain cs where
    f: "final (Reconcile ?w) = Some (redisNew\<lparr>Status_Conditions := Some cs\<rparr>)"
    and t: "trace (Reconcile ?w) = [CallGet, CallPatchInstance (redisNew\<lparr>Status_Conditions := Some cs\<rparr>)]"
    and ty: "map Type cs =
       [ReadyCondition, TLSInputReadyCondition, ExposeServiceReadyCondition,
        ServiceConfigReadyCondition, DeploymentReadyCondition, ServiceAccountReadyCondition,
        RoleReadyCondition, RoleBindingReadyCondition]"
    and un: "list_all (\<lambda>c. Status c = ConditionUnknown) cs"
    and r: "ret (Reconcile ?w) = Return emptyResult (PatchInstance ?w)"
    by (elim exE conjE)
  from ty have "length (map Type cs) = 8" by simp
  then have l: "length cs = 8" by simp
  have "map Status cs = replicate (length cs) ConditionUnknown"
    using un by (induction cs) simp_all
  with l have "map Status cs = replicate 8 ConditionUnknown" by simp
  with g h n f t r pi show ?thesis by (simp add: conds_def)
qed

text \<open>
  C8 as stated fails when the status patch fails: the conditions are initialised in memory,
  nothing is persisted and the pass returns the error of the patch.
\<close>

theorem first_observation_patch_error_returned:
  "Status_Conditions redisNew = None \<and>
   trace (Reconcile (patchFails redisNew)) =
     [CallGet, CallPatchInstance (the (final (Reconcile (patchFails redisNew))))] \<and>
   ret (Reconcile (patchFails redisNew)) = Return emptyResult (Some (Error ''conflict''))"
proof -
  have a: "Status_Conditions redisNew = None" by (simp add: redisNew_def)
  have b: "trace (Reconcile (patchFails redisNew)) =
     [CallGet, CallPatchInstance (the (final (Reconcile (patchFails redisNew))))]"
    by (simp add: eval_defs)
  have c: "ret (Reconcile (patchFails redisNew)) = Return emptyResult (Some (Error ''conflict''))"
    by (simp add: eval_defs)
  from a b c show ?thesis by blast
qed

subsection \<open>The input hashes\<close>

lemma hashInputs_err:
  "snd (hashInputs w p) =
     (if Enabled (Spec_TLS (inst p)) \<and> snd (ValidateCertSecret w) \<noteq> None
      then snd (ValidateCertSecret w)
      else if CaBundleSecretName (Spec_TLS (inst p)) \<noteq> '''' then snd (ValidateCACertSecret w)
      else None)"
  by (auto simp: hashInputs_def Let_def called_def split: prod.splits)

lemma hashInputs_env:
  "inputHashEnv (fst (hashInputs w p)) =
     (let e = (if Enabled (Spec_TLS (inst p)) then [''Cert'' \<mapsto> fst (ValidateCertSecret w)]
               else Map.empty)
      in if (Enabled (Spec_TLS (inst p)) \<longrightarrow> snd (ValidateCertSecret w) = None) \<and>
            CaBundleSecretName (Spec_TLS (inst p)) \<noteq> ''''
         then e(''CA'' \<mapsto> fst (ValidateCACertSecret w)) else e)"
  by (auto simp: hashInputs_def Let_def called_def split: prod.splits)

lemma hashInputs_calls_exact:
  "calls (fst (hashInputs w p)) =
     calls p @
     (if Enabled (Spec_TLS (inst p)) then [CallValidateCertSecret] else []) @
     (if (Enabled (Spec_TLS (inst p)) \<longrightarrow> snd (ValidateCertSecret w) = None) \<and>
         CaBundleSecretName (Spec_TLS (inst p)) \<noteq> ''''
      then [CallValidateCACertSecret] else [])"
  by (auto simp: hashInputs_def Let_def called_def split: prod.splits)

lemma checkInputs_error:
  assumes "snd (hashInputs w p) = Some e"
  shows "checkInputs w p =
     Inl (Return emptyResult (Some (Wrapped ''error calculating input hash: '' e)),
          updConditions
            (Set (FalseCondition TLSInputReadyCondition ErrorReason SeverityWarning
                    (Sprintf ''TLSInputErrorMessage'' [Error_msg e])))
            (fst (hashInputs w p)))"
proof -
  obtain p' err where h: "hashInputs w p = (p', err)" by (cases "hashInputs w p")
  with assms have "err = Some e" by simp
  with h show ?thesis by (simp add: checkInputs_def Error_of_def)
qed

lemma input_failure_pass:
  assumes "r_Get w = Found i" and "NewHelper w = None"
    and "beforeInputs w (start i) = Inr p" and "snd (hashInputs w p) = Some e"
  shows "final (Reconcile w) =
       Some ((inst p)\<lparr>Status_Conditions := Some (recomputeReady
          (Set (FalseCondition TLSInputReadyCondition ErrorReason SeverityWarning
                  (Sprintf ''TLSInputErrorMessage'' [Error_msg e])) (conds (inst p))))\<rparr>)"
    and "ret (Reconcile w) =
       Return emptyResult (Some (case PatchInstance w of
          None \<Rightarrow> Wrapped ''error calculating input hash: '' e | Some pe \<Rightarrow> pe))"
    and "hashEnv (Reconcile w) = inputHashEnv (fst (hashInputs w p))"
    and "trace (Reconcile w) =
       calls (fst (hashInputs w p)) @ [CallPatchInstance (the (final (Reconcile w)))]"
proof -
  let ?c = "FalseCondition TLSInputReadyCondition ErrorReason SeverityWarning
              (Sprintf ''TLSInputErrorMessage'' [Error_msg e])"
  let ?p' = "updConditions (Set ?c) (fst (hashInputs w p))"
  have b: "body w (start i) = (Return emptyResult (Some (Wrapped ''error calculating input hash: '' e)), ?p')"
    using body_checkInputs_Inl [OF assms(3) checkInputs_error [OF assms(4)]] .
  note R = Reconcile_deferred [OF assms(1,2) b]
  show "final (Reconcile w) =
       Some ((inst p)\<lparr>Status_Conditions := Some (recomputeReady (Set ?c (conds (inst p))))\<rparr>)"
    by (simp add: R updConditions_def hashInputs_inst conds_def)
  show "ret (Reconcile w) =
       Return emptyResult (Some (case PatchInstance w of
          None \<Rightarrow> Wrapped ''error calculating input hash: '' e | Some pe \<Rightarrow> pe))"
    by (simp add: R split: option.splits)
  show "hashEnv (Reconcile w) = inputHashEnv (fst (hashInputs w p))"
    by (simp add: R updConditions_def)
  show "trace (Reconcile w) =
       calls (fst (hashInputs w p)) @ [CallPatchInstance (the (final (Reconcile w)))]"
    by (simp add: R updConditions_def)
qed

text \<open>
  C6. For every pass that reaches the input check and in which the validation of the
  certificate secret fails, or that of the CA bundle secret fails after the certificate (if
  any) was validated, the pass ends with the TLS input condition False, with the error
  reason, a warning severity and the message of the error; it returns the empty result and
  an error (the wrapped validation error, or the error of the status patch when that
  fails); and it calls neither the configuration renderer nor any endpoint or workload
  upsert.
\<close>

theorem input_validation_failure_aborts:
  assumes "r_Get w = Found i" and "NewHelper w = None"
    and "beforeInputs w (start i) = Inr p"
    and "(Enabled (Spec_TLS i) \<and> snd (ValidateCertSecret w) = Some e) \<or>
         ((Enabled (Spec_TLS i) \<longrightarrow> snd (ValidateCertSecret w) = None) \<and>
          CaBundleSecretName (Spec_TLS i) \<noteq> '''' \<and> snd (ValidateCACertSecret w) = Some e)"
  shows "Get TLSInputReadyCondition (conds (the (final (Reconcile w)))) =
       Some (FalseCondition TLSInputReadyCondition ErrorReason SeverityWarning
               (Sprintf ''TLSInputErrorMessage'' [Error_msg e])) \<and>
     ret (Reconcile w) =
       Return emptyResult (Some (case PatchInstance w of
          None \<Rightarrow> Wrapped ''error calculating input hash: '' e | Some pe \<Rightarrow> pe)) \<and>
     CallEnsureConfigMaps \<notin> set (trace (Reconcile w)) \<and>
     CallHeadlessCreateOrPatch \<notin> set (trace (Reconcile w)) \<and>
     CallServiceCreateOrPatch \<notin> set (trace (Reconcile w)) \<and>
     CallStatefulSetCreateOrPatch \<notin> set (trace (Reconcile w))"
proof -
  let ?c = "FalseCondition TLSInputReadyCondition ErrorReason SeverityWarning
              (Sprintf ''TLSInputErrorMessage'' [Error_msg e])"
  have tls: "Spec_TLS (inst p) = Spec_TLS i" using beforeInputs_frame [OF assms(3)] by simp
  have err: "snd (hashInputs w p) = Some e"
    using assms(4) by (auto simp: hashInputs_err tls)
  note P = input_failure_pass [OF assms(1,2,3) err]
  have "Get TLSInputReadyCondition (recomputeReady (Set ?c (conds (inst p)))) = Some ?c"
    by (simp add: Get_recomputeReady_other Get_Set_same FalseCondition_def)
  then have g: "Get TLSInputReadyCondition (conds (the (final (Reconcile w)))) = Some ?c"
    by (simp add: P(1) conds_def)
  have "set (calls p) \<subseteq> {CallGet, CallReconcileRbac}"
    using beforeInputs_calls [of w i] assms(3) by (simp add: stagePass_def)
  then have c: "set (calls (fst (hashInputs w p))) \<subseteq>
      {CallGet, CallReconcileRbac, CallValidateCertSecret, CallValidateCACertSecret}"
    using hashInputs_calls [of w p] by auto
  have n: "CallEnsureConfigMaps \<notin> set (trace (Reconcile w)) \<and>
     CallHeadlessCreateOrPatch \<notin> set (trace (Reconcile w)) \<and>
     CallServiceCreateOrPatch \<notin> set (trace (Reconcile w)) \<and>
     CallStatefulSetCreateOrPatch \<notin> set (trace (Reconcile w))"
    using c by (subst (1 2 3 4) P(4)) auto
  show ?thesis using g P(2) n by simp
qed

text \<open>
  Transport security is off and the CA bundle cannot be validated: the TLS input condition
  is False with the message of that error, the wrapped error is returned and the renderer
  is not called.
\<close>

theorem input_validation_failure_aborts_witness:
  "r_Get caFails = Found redisCA \<and> NewHelper caFails = None \<and>
   beforeInputs caFails (start redisCA) = Inr (stagePass (beforeInputs caFails (start redisCA))) \<and>
   \<not> Enabled (Spec_TLS redisCA) \<and> CaBundleSecretName (Spec_TLS redisCA) = ''ca-bundle'' \<and>
   snd (ValidateCACertSecret caFails) = Some (Error ''ca bundle not found'') \<and>
   Get TLSInputReadyCondition (conds (the (final (Reconcile caFails)))) =
     Some (FalseCondition TLSInputReadyCondition ErrorReason SeverityWarning
             (Sprintf ''TLSInputErrorMessage'' [''ca bundle not found''])) \<and>
   ret (Reconcile caFails) =
     Return emptyResult
       (Some (Wrapped ''error calculating input hash: '' (Error ''ca bundle not found''))) \<and>
   CallEnsureConfigMaps \<notin> set (trace (Reconcile caFails))"
proof -
  let ?p = "stagePass (beforeInputs caFails (start redisCA))"
  have g: "r_Get caFails = Found redisCA" and h: "NewHelper caFails = None"
    and pi: "PatchInstance caFails = None"
    and ca: "snd (ValidateCACertSecret caFails) = Some (Error ''ca bundle not found'')"
    by (simp_all add: caFails_def okWorld_def)
  have b: "beforeInputs caFails (start redisCA) = Inr ?p" by (simp add: eval_defs)
  have en: "\<not> Enabled (Spec_TLS redisCA)"
    by (simp add: redisCA_def redisReady_def redisNew_def Enabled_def)
  have cn: "CaBundleSecretName (Spec_TLS redisCA) = ''ca-bundle''"
    by (simp add: redisCA_def redisReady_def redisNew_def)
  have d: "(Enabled (Spec_TLS redisCA) \<and> snd (ValidateCertSecret caFails) = Some (Error ''ca bundle not found'')) \<or>
         ((Enabled (Spec_TLS redisCA) \<longrightarrow> snd (ValidateCertSecret caFails) = None) \<and>
          CaBundleSecretName (Spec_TLS redisCA) \<noteq> '''' \<and>
          snd (ValidateCACertSecret caFails) = Some (Error ''ca bundle not found''))"
    using en cn ca by simp
  note T = input_validation_failure_aborts [OF g h b d]
  have c1: "Get TLSInputReadyCondition (conds (the (final (Reconcile caFails)))) =
     Some (FalseCondition TLSInputReadyCondition ErrorReason SeverityWarning
             (Sprintf ''TLSInputErrorMessage'' [''ca bundle not found'']))"
    using T by simp
  have c2: "ret (Reconcile caFails) =
     Return emptyResult
       (Some (Wrapped ''error calculating input hash: '' (Error ''ca bundle not found'')))"
    using T pi by simp
  have c3: "CallEnsureConfigMaps \<notin> set (trace (Reconcile caFails))" using T by blast
  from g h b en cn ca c1 c2 c3 show ?thesis by blast
qed

text \<open>
  C9. For every pass that reaches the input check with transport security enabled and in
  which the validation of the certificate secret fails, the validator of the CA bundle is
  not called, whatever the CA bundle secret name is; \<open>inputHashEnv\<close> holds the one entry
  \<open>Cert\<close>, with the hash the validator returned beside its error, and no \<open>CA\<close> entry; and the
  error the body returns is the wrapped error of the certificate (which the error of the
  status patch replaces when that fails).
\<close>

theorem cert_failure_skips_CA:
  assumes "r_Get w = Found i" and "NewHelper w = None"
    and "beforeInputs w (start i) = Inr p"
    and "Enabled (Spec_TLS i)" and "ValidateCertSecret w = (h, Some e)"
  shows "hashEnv (Reconcile w) = [''Cert'' \<mapsto> h] \<and>
     hashEnv (Reconcile w) ''CA'' = None \<and>
     CallValidateCertSecret \<in> set (trace (Reconcile w)) \<and>
     CallValidateCACertSecret \<notin> set (trace (Reconcile w)) \<and>
     fst (body w (start i)) =
       Return emptyResult (Some (Wrapped ''error calculating input hash: '' e)) \<and>
     ret (Reconcile w) =
       Return emptyResult (Some (case PatchInstance w of
          None \<Rightarrow> Wrapped ''error calculating input hash: '' e | Some pe \<Rightarrow> pe))"
proof -
  have tls: "Spec_TLS (inst p) = Spec_TLS i" using beforeInputs_frame [OF assms(3)] by simp
  have err: "snd (hashInputs w p) = Some e"
    using assms(4,5) by (simp add: hashInputs_err tls)
  note P = input_failure_pass [OF assms(1,2,3) err]
  have env: "inputHashEnv (fst (hashInputs w p)) = [''Cert'' \<mapsto> h]"
    using assms(4,5) by (simp add: hashInputs_env tls)
  have cl: "calls (fst (hashInputs w p)) = calls p @ [CallValidateCertSecret]"
    using assms(4,5) by (simp add: hashInputs_calls_exact tls)
  have cp: "set (calls p) \<subseteq> {CallGet, CallReconcileRbac}"
    using beforeInputs_calls [of w i] assms(3) by (simp add: stagePass_def)
  have e1: "hashEnv (Reconcile w) = [''Cert'' \<mapsto> h]" by (simp add: P(3) env)
  have e2: "hashEnv (Reconcile w) ''CA'' = None" by (simp add: e1)
  have t1: "CallValidateCertSecret \<in> set (trace (Reconcile w))"
    by (subst P(4)) (simp add: cl)
  have t2: "CallValidateCACertSecret \<notin> set (trace (Reconcile w))"
    using cp by (subst P(4)) (auto simp: cl)
  have b: "fst (body w (start i)) =
       Return emptyResult (Some (Wrapped ''error calculating input hash: '' e))"
    using body_checkInputs_Inl [OF assms(3) checkInputs_error [OF err]] by simp
  from e1 e2 t1 t2 b P(2) show ?thesis by blast
qed

text \<open>
  A certificate and a CA bundle are referenced and the certificate secret is missing: the
  validator returns the empty hash and an error, \<open>Cert\<close> is stored with the empty hash and
  the CA bundle is never looked at.
\<close>

theorem cert_failure_skips_CA_witness:
  "r_Get certFails = Found redisTLS \<and> NewHelper certFails = None \<and>
   beforeInputs certFails (start redisTLS) = Inr (stagePass (beforeInputs certFails (start redisTLS))) \<and>
   Enabled (Spec_TLS redisTLS) \<and> CaBundleSecretName (Spec_TLS redisTLS) = ''ca-bundle'' \<and>
   ValidateCertSecret certFails = ('''', Some (Error ''secret not found'')) \<and>
   hashEnv (Reconcile certFails) ''Cert'' = Some '''' \<and>
   hashEnv (Reconcile certFails) ''CA'' = None \<and>
   CallValidateCACertSecret \<notin> set (trace (Reconcile certFails)) \<and>
   ret (Reconcile certFails) =
     Return emptyResult
       (Some (Wrapped ''error calculating input hash: '' (Error ''secret not found'')))"
proof -
  let ?p = "stagePass (beforeInputs certFails (start redisTLS))"
  have g: "r_Get certFails = Found redisTLS" and h: "NewHelper certFails = None"
    and pi: "PatchInstance certFails = None"
    and v: "ValidateCertSecret certFails = ('''', Some (Error ''secret not found''))"
    by (simp_all add: certFails_def okWorld_def)
  have b: "beforeInputs certFails (start redisTLS) = Inr ?p" by (simp add: eval_defs)
  have en: "Enabled (Spec_TLS redisTLS)"
    by (simp add: redisTLS_def redisReady_def redisNew_def Enabled_def)
  have cn: "CaBundleSecretName (Spec_TLS redisTLS) = ''ca-bundle''"
    by (simp add: redisTLS_def redisReady_def redisNew_def)
  note T = cert_failure_skips_CA [OF g h b en v]
  have c1: "hashEnv (Reconcile certFails) ''Cert'' = Some ''''" using T by simp
  have c2: "hashEnv (Reconcile certFails) ''CA'' = None" using T by blast
  have c3: "CallValidateCACertSecret \<notin> set (trace (Reconcile certFails))" using T by blast
  have c4: "ret (Reconcile certFails) =
     Return emptyResult
       (Some (Wrapped ''error calculating input hash: '' (Error ''secret not found'')))"
    using T pi by simp
  from g h b en cn v c1 c2 c3 c4 show ?thesis by blast
qed

text \<open>
  C4 (amended). For every transport-security configuration, the input hash mapping that
  lines 205 to 221 build has no other keys than \<open>Cert\<close> and \<open>CA\<close>; a \<open>Cert\<close> entry is produced
  exactly when transport security is enabled, that is when a service certificate secret is
  referenced, and it holds the hash the validator returned; a \<open>CA\<close> entry is produced exactly
  when the CA bundle secret name is non-empty and the certificate validation, if there was
  one, did not fail, and it holds the hash its validator returned. When transport security
  is disabled and no CA bundle is named, the mapping is empty and there is no error.
\<close>

theorem input_hash_entries:
  "let tls = Spec_TLS (inst p); env = inputHashEnv (fst (hashInputs w p)) in
     dom env \<subseteq> {''Cert'', ''CA''} \<and>
     (''Cert'' \<in> dom env \<longleftrightarrow> Enabled tls) \<and>
     (''CA'' \<in> dom env \<longleftrightarrow>
        CaBundleSecretName tls \<noteq> '''' \<and> (Enabled tls \<longrightarrow> snd (ValidateCertSecret w) = None)) \<and>
     (''Cert'' \<in> dom env \<longrightarrow> env ''Cert'' = Some (fst (ValidateCertSecret w))) \<and>
     (''CA'' \<in> dom env \<longrightarrow> env ''CA'' = Some (fst (ValidateCACertSecret w))) \<and>
     (\<not> Enabled tls \<and> CaBundleSecretName tls = '''' \<longrightarrow>
        env = Map.empty \<and> snd (hashInputs w p) = None)"
  by (auto simp: hashInputs_env hashInputs_err Let_def split: if_splits)

text \<open>
  A certificate and a CA bundle are referenced and both validate: the mapping has the two
  entries.
\<close>

theorem input_hash_entries_witness:
  "Enabled (Spec_TLS (inst (start redisTLS))) \<and>
   CaBundleSecretName (Spec_TLS (inst (start redisTLS))) = ''ca-bundle'' \<and>
   snd (ValidateCertSecret (okWorld redisTLS)) = None \<and>
   inputHashEnv (fst (hashInputs (okWorld redisTLS) (start redisTLS))) ''Cert'' = Some ''certhash'' \<and>
   inputHashEnv (fst (hashInputs (okWorld redisTLS) (start redisTLS))) ''CA'' = Some ''cahash'' \<and>
   dom (inputHashEnv (fst (hashInputs (okWorld redisTLS) (start redisTLS)))) = {''Cert'', ''CA''}"
proof -
  let ?w = "okWorld redisTLS"
  let ?env = "inputHashEnv (fst (hashInputs ?w (start redisTLS)))"
  have en: "Enabled (Spec_TLS (inst (start redisTLS)))"
    by (simp add: start_def redisTLS_def redisReady_def redisNew_def Enabled_def)
  have cn: "CaBundleSecretName (Spec_TLS (inst (start redisTLS))) = ''ca-bundle''"
    by (simp add: start_def redisTLS_def redisReady_def redisNew_def)
  have v: "snd (ValidateCertSecret ?w) = None" and v1: "fst (ValidateCertSecret ?w) = ''certhash''"
    and v2: "fst (ValidateCACertSecret ?w) = ''cahash''"
    by (simp_all add: okWorld_def)
  note T = input_hash_entries [of "start redisTLS" ?w, unfolded Let_def]
  have d1: "''Cert'' \<in> dom ?env" using T en by blast
  have d2: "''CA'' \<in> dom ?env" using T en cn v by auto
  have d3: "dom ?env \<subseteq> {''Cert'', ''CA''}" using T by blast
  have c1: "?env ''Cert'' = Some ''certhash''" using T d1 v1 by auto
  have c2: "?env ''CA'' = Some ''cahash''" using T d2 v2 by auto
  have c3: "dom ?env = {''Cert'', ''CA''}" using d1 d2 d3 by blast
  from en cn v c1 c2 c3 show ?thesis by blast
qed

text \<open>
  C4 as stated fails when transport security is disabled and a CA bundle is named: the test
  of line 214 does not look at \<open>Enabled()\<close>, and the \<open>CA\<close> entry is produced.
\<close>

theorem disabled_tls_still_hashes_CA:
  "\<not> Enabled (Spec_TLS redisCA) \<and>
   inputHashEnv (fst (hashInputs (okWorld redisCA) (start redisCA))) ''CA'' = Some ''cahash'' \<and>
   CallValidateCACertSecret \<in> set (trace (Reconcile (okWorld redisCA))) \<and>
   hashEnv (Reconcile (okWorld redisCA)) ''CA'' = Some ''cahash''"
proof -
  have a: "\<not> Enabled (Spec_TLS redisCA)"
    by (simp add: redisCA_def redisReady_def redisNew_def Enabled_def)
  have b: "inputHashEnv (fst (hashInputs (okWorld redisCA) (start redisCA))) ''CA'' = Some ''cahash''"
    by (simp add: eval_defs)
  have c: "CallValidateCACertSecret \<in> set (trace (Reconcile (okWorld redisCA)))"
    by (simp add: eval_defs Let_def)
  have d: "hashEnv (Reconcile (okWorld redisCA)) ''CA'' = Some ''cahash''"
    by (simp add: eval_defs Let_def)
  from a b c d show ?thesis by blast
qed

text \<open>
  C3. The code does not do what the claim says. When the create-or-patch of the headless
  service or of the exposing service fails, lines 286 and 308 format \<open>err.Error()\<close>, where
  \<open>err\<close> is the error of the \<open>NewService\<close> call before, which is nil at that point: the call
  panics before the condition is set and before the \<open>return\<close>. The deferred step still runs;
  the endpoints condition is left as it was and nothing is returned.
\<close>

text \<open>
  In every world and every state of the pass: when \<open>NewService\<close> succeeded and the upsert
  fails, the endpoints stage panics, for the one service and for the other.
\<close>

lemma endpoints_upsert_error_panics:
  "NewService_headless w = None \<Longrightarrow> snd (headless_CreateOrPatch w) \<noteq> None \<Longrightarrow>
     fst (projl (endpoints w p)) = Panic \<and> isl (endpoints w p)"
  "NewService_headless w = None \<Longrightarrow> snd (headless_CreateOrPatch w) = None \<Longrightarrow>
   NewService_commonsvc w = None \<Longrightarrow> snd (commonsvc_CreateOrPatch w) \<noteq> None \<Longrightarrow>
     fst (projl (endpoints w p)) = Panic \<and> isl (endpoints w p)"
  by (auto simp: endpoints_def Error_of_def Let_def split: prod.splits)

theorem endpoint_upsert_failure_panics:
  "snd (headless_CreateOrPatch headlessFails) = Some (Error ''conflict'') \<and>
   ret (Reconcile headlessFails) = Panic \<and>
   IsTrue ExposeServiceReadyCondition (conds (the (final (Reconcile headlessFails)))) \<and>
   snd (commonsvc_CreateOrPatch serviceFails) = Some (Error ''conflict'') \<and>
   ret (Reconcile serviceFails) = Panic \<and>
   IsTrue ExposeServiceReadyCondition (conds (the (final (Reconcile serviceFails))))"
proof -
  have a: "snd (headless_CreateOrPatch headlessFails) = Some (Error ''conflict'')"
    by (simp add: headlessFails_def okWorld_def)
  have b: "ret (Reconcile headlessFails) = Panic" by (simp add: eval_defs Let_def)
  have c: "IsTrue ExposeServiceReadyCondition (conds (the (final (Reconcile headlessFails))))"
    by (simp add: eval_defs Let_def)
  have d: "snd (commonsvc_CreateOrPatch serviceFails) = Some (Error ''conflict'')"
    by (simp add: serviceFails_def okWorld_def)
  have e: "ret (Reconcile serviceFails) = Panic" by (simp add: eval_defs Let_def)
  have f: "IsTrue ExposeServiceReadyCondition (conds (the (final (Reconcile serviceFails))))"
    by (simp add: eval_defs Let_def)
  from a b c d e f show ?thesis by blast
qed

subsection \<open>The conditions each stage sets\<close>

lemma Type_TrueCondition: "Type (TrueCondition t m) = t"
  and Type_FalseCondition: "Type (FalseCondition t r s m) = t"
  and Type_UnknownCondition: "Type (UnknownCondition t r m') = t"
  by (simp_all add: TrueCondition_def FalseCondition_def UnknownCondition_def)

lemma conds_updConditions: "conds (inst (updConditions f p)) = f (conds (inst p))"
  by (simp add: updConditions_def conds_def)

lemma inst_called: "inst (called c p) = inst p"
  by (simp add: called_def)

lemmas cond_simps = Type_TrueCondition Type_FalseCondition Type_UnknownCondition
  conds_updConditions inst_called Get_Set_other Get_Set_same MarkTrue_def

lemma checkInputs_Get:
  assumes "t \<noteq> TLSInputReadyCondition"
  shows "Get t (conds (inst (stagePass (checkInputs w p)))) = Get t (conds (inst p))"
proof -
  obtain p' err where h: "hashInputs w p = (p', err)" by (cases "hashInputs w p")
  then have "inst p' = inst p" using hashInputs_inst [of w p] by simp
  with h assms show ?thesis
    by (auto simp: checkInputs_def stagePass_def Error_of_def cond_simps split: option.splits)
qed

lemma configMaps_Get:
  assumes "t \<noteq> ServiceConfigReadyCondition"
  shows "Get t (conds (inst (stagePass (configMaps w p)))) = Get t (conds (inst p))"
proof -
  obtain p' err where h: "generateConfigMaps w p = (p', err)" by (cases "generateConfigMaps w p")
  then have "inst p' = inst p"
    by (auto simp: generateConfigMaps_def Let_def called_def split: prod.splits)
  with h assms show ?thesis
    by (auto simp: configMaps_def stagePass_def Error_of_def cond_simps split: option.splits)
qed

lemma hashDrift_conds: "conds (inst (stagePass (hashDrift w p))) = conds (inst p)"
  by (auto simp: hashDrift_def stagePass_def conds_def Let_def split: prod.splits)

lemma endpoints_Get:
  assumes "t \<noteq> ExposeServiceReadyCondition"
  shows "Get t (conds (inst (stagePass (endpoints w p)))) = Get t (conds (inst p))"
  using assms
  by (auto simp: endpoints_def stagePass_def Error_of_def Let_def exposeServiceError_def
      cond_simps split: option.splits prod.splits)

lemma workload_Get:
  "Get DeploymentReadyCondition (conds (inst (snd (workload w p)))) =
     (if snd (statefulset_CreateOrPatch w) = None \<and> 0 <s ReadyReplicas w
      then Some (TrueCondition DeploymentReadyCondition (Text ''DeploymentReadyMessage''))
      else Get DeploymentReadyCondition (conds (inst p)))"
  by (auto simp: workload_def Let_def cond_simps split: prod.splits)

lemma workload_ret:
  "fst (workload w p) =
     (case snd (statefulset_CreateOrPatch w) of
        None \<Rightarrow> Return emptyResult None
      | Some e \<Rightarrow> Return (fst (statefulset_CreateOrPatch w)) (Some e))"
  by (auto simp: workload_def Let_def split: prod.splits option.splits)

text \<open>The workload condition from the permission stage to the workload stage.\<close>

lemma beforeConfig_Deployment:
  assumes "beforeInputs w (start i) = Inr p0"
  shows "Get DeploymentReadyCondition (conds (inst (stagePass (beforeConfig w (start i))))) =
         Get DeploymentReadyCondition (conds (inst p0))"
  using assms checkInputs_Get [of DeploymentReadyCondition w p0]
  by (simp add: beforeConfig_def andThen_def)

lemma beforeHash_Deployment:
  assumes "beforeInputs w (start i) = Inr p0"
  shows "Get DeploymentReadyCondition (conds (inst (stagePass (beforeHash w (start i))))) =
         Get DeploymentReadyCondition (conds (inst p0))"
proof (cases "beforeConfig w (start i)")
  case (Inl rp)
  then have "stagePass (beforeHash w (start i)) = stagePass (beforeConfig w (start i))"
    by (simp add: beforeHash_def andThen_def stagePass_def)
  then show ?thesis using beforeConfig_Deployment [OF assms] by simp
next
  case (Inr p)
  then have "stagePass (beforeHash w (start i)) = stagePass (configMaps w p)"
    by (simp add: beforeHash_def andThen_def)
  moreover have "stagePass (beforeConfig w (start i)) = p" using Inr by (simp add: stagePass_def)
  ultimately show ?thesis
    using beforeConfig_Deployment [OF assms] configMaps_Get [of DeploymentReadyCondition w p]
    by simp
qed

lemma beforeEndpoints_Deployment:
  assumes "beforeInputs w (start i) = Inr p0"
  shows "Get DeploymentReadyCondition (conds (inst (stagePass (beforeEndpoints w (start i))))) =
         Get DeploymentReadyCondition (conds (inst p0))"
proof (cases "beforeHash w (start i)")
  case (Inl rp)
  then have "stagePass (beforeEndpoints w (start i)) = stagePass (beforeHash w (start i))"
    by (simp add: beforeEndpoints_def andThen_def stagePass_def)
  then show ?thesis using beforeHash_Deployment [OF assms] by simp
next
  case (Inr p)
  then have "stagePass (beforeEndpoints w (start i)) = stagePass (hashDrift w p)"
    by (simp add: beforeEndpoints_def andThen_def)
  moreover have "stagePass (beforeHash w (start i)) = p" using Inr by (simp add: stagePass_def)
  ultimately show ?thesis
    using beforeHash_Deployment [OF assms] by (simp add: hashDrift_conds)
qed

lemma beforeWorkload_Deployment:
  assumes "beforeInputs w (start i) = Inr p0"
  shows "Get DeploymentReadyCondition (conds (inst (stagePass (beforeWorkload w (start i))))) =
         Get DeploymentReadyCondition (conds (inst p0))"
proof (cases "beforeEndpoints w (start i)")
  case (Inl rp)
  then have "stagePass (beforeWorkload w (start i)) = stagePass (beforeEndpoints w (start i))"
    by (simp add: beforeWorkload_def andThen_def stagePass_def)
  then show ?thesis using beforeEndpoints_Deployment [OF assms] by simp
next
  case (Inr p)
  then have "stagePass (beforeWorkload w (start i)) = stagePass (endpoints w p)"
    by (simp add: beforeWorkload_def andThen_def)
  moreover have "stagePass (beforeEndpoints w (start i)) = p" using Inr by (simp add: stagePass_def)
  ultimately show ?thesis
    using beforeEndpoints_Deployment [OF assms] endpoints_Get [of DeploymentReadyCondition w p]
    by simp
qed

lemma body_Deployment:
  assumes "beforeInputs w (start i) = Inr p0"
  shows "Get DeploymentReadyCondition (conds (inst (snd (body w (start i))))) =
         Get DeploymentReadyCondition (conds (inst p0)) \<or>
         Get DeploymentReadyCondition (conds (inst (snd (body w (start i))))) =
         Some (TrueCondition DeploymentReadyCondition (Text ''DeploymentReadyMessage''))"
proof (cases "beforeWorkload w (start i)")
  case (Inl rp)
  then have "snd (body w (start i)) = stagePass (beforeWorkload w (start i))"
    by (simp add: body_def stagePass_def)
  then show ?thesis using beforeWorkload_Deployment [OF assms] by simp
next
  case (Inr p)
  then have "snd (body w (start i)) = snd (workload w p)" by (simp add: body_def)
  moreover have "stagePass (beforeWorkload w (start i)) = p" using Inr by (simp add: stagePass_def)
  ultimately show ?thesis
    using beforeWorkload_Deployment [OF assms] workload_Get [of w p] by auto
qed

lemma beforeInputs_cases:
  assumes "Status_Conditions i = Some cs"
  shows "stagePass (beforeInputs w (start i)) =
           called CallReconcileRbac (updConditions (ReconcileRbac_conditions w) (start i))"
  using assms
  by (auto simp: beforeInputs_def andThen_def initStatus_def reconcileRbac_def stagePass_def
      start_def Let_def split: prod.splits)

lemma body_keeps_Deployment_True:
  assumes "IsTrue DeploymentReadyCondition (conds i)"
    and "Get DeploymentReadyCondition (ReconcileRbac_conditions w (conds i)) =
         Get DeploymentReadyCondition (conds i)"
  shows "IsTrue DeploymentReadyCondition (conds (inst (snd (body w (start i)))))"
proof -
  from assms(1) obtain cs where cs: "Status_Conditions i = Some cs"
    by (cases "Status_Conditions i") (auto simp: IsTrue_def Get_def conds_def)
  let ?p0 = "called CallReconcileRbac (updConditions (ReconcileRbac_conditions w) (start i))"
  have p0: "Get DeploymentReadyCondition (conds (inst ?p0)) = Get DeploymentReadyCondition (conds i)"
    using assms(2) by (simp add: cond_simps start_def)
  show ?thesis
  proof (cases "beforeInputs w (start i)")
    case (Inl rp)
    then have "snd (body w (start i)) = stagePass (beforeInputs w (start i))"
      using body_beforeInputs_Inl [of w "start i" rp] by (simp add: stagePass_def)
    then show ?thesis using beforeInputs_cases [OF cs, of w] p0 assms(1) by (simp add: IsTrue_def)
  next
    case (Inr p)
    then have "p = ?p0" using beforeInputs_cases [OF cs, of w] by (simp add: stagePass_def)
    with body_Deployment [OF Inr] p0 assms(1) show ?thesis
      by (auto simp: IsTrue_def TrueCondition_def)
  qed
qed

text \<open>
  C5 (amended). Once the workload condition is True, no pass that fetches the resource and
  builds the helper resets it to False, on any path, as long as the permission reconciler
  leaves that condition alone: the pass only ever sets it, to True, when the stateful set
  upsert succeeds and at least one replica is ready, and otherwise ends with the condition
  it had when the workload stage was reached. So neither an upsert failure nor an
  observation of zero ready replicas changes it. A stateful set upsert failure returns the
  sub-reconciler's result with its error, which the error of the status patch replaces when
  that patch fails.
\<close>

theorem workload_ready_never_reset:
  assumes "r_Get w = Found i" and "NewHelper w = None"
  shows "(IsTrue DeploymentReadyCondition (conds i) \<and>
          Get DeploymentReadyCondition (ReconcileRbac_conditions w (conds i)) =
            Get DeploymentReadyCondition (conds i) \<longrightarrow>
            IsTrue DeploymentReadyCondition (conds (the (final (Reconcile w))))) \<and>
     (\<forall>p. beforeWorkload w (start i) = Inr p \<longrightarrow>
        Get DeploymentReadyCondition (conds (the (final (Reconcile w)))) =
          (if snd (statefulset_CreateOrPatch w) = None \<and> 0 <s ReadyReplicas w
           then Some (TrueCondition DeploymentReadyCondition (Text ''DeploymentReadyMessage''))
           else Get DeploymentReadyCondition (conds (inst p))) \<and>
        (\<forall>e. snd (statefulset_CreateOrPatch w) = Some e \<longrightarrow>
           CallStatefulSetCreateOrPatch \<in> set (trace (Reconcile w)) \<and>
           ret (Reconcile w) =
             Return (fst (statefulset_CreateOrPatch w))
               (Some (case PatchInstance w of None \<Rightarrow> e | Some pe \<Rightarrow> pe))))"
proof -
  obtain r p' where b: "body w (start i) = (r, p')" by (cases "body w (start i)")
  note R = Reconcile_deferred [OF assms b]
  have fin: "conds (the (final (Reconcile w))) = recomputeReady (conds (inst p'))"
    by (simp add: R conds_def)
  have g: "Get DeploymentReadyCondition (conds (the (final (Reconcile w)))) =
           Get DeploymentReadyCondition (conds (inst p'))"
    by (simp add: fin Get_recomputeReady_other)
  have A: "IsTrue DeploymentReadyCondition (conds (the (final (Reconcile w))))"
    if "IsTrue DeploymentReadyCondition (conds i) \<and>
        Get DeploymentReadyCondition (ReconcileRbac_conditions w (conds i)) =
          Get DeploymentReadyCondition (conds i)"
  proof -
    have "IsTrue DeploymentReadyCondition (conds (inst (snd (body w (start i)))))"
      using that body_keeps_Deployment_True [of i w] by blast
    then show ?thesis using g b by (simp add: IsTrue_def)
  qed
  have B: "Get DeploymentReadyCondition (conds (the (final (Reconcile w)))) =
          (if snd (statefulset_CreateOrPatch w) = None \<and> 0 <s ReadyReplicas w
           then Some (TrueCondition DeploymentReadyCondition (Text ''DeploymentReadyMessage''))
           else Get DeploymentReadyCondition (conds (inst p))) \<and>
        (\<forall>e. snd (statefulset_CreateOrPatch w) = Some e \<longrightarrow>
           CallStatefulSetCreateOrPatch \<in> set (trace (Reconcile w)) \<and>
           ret (Reconcile w) =
             Return (fst (statefulset_CreateOrPatch w))
               (Some (case PatchInstance w of None \<Rightarrow> e | Some pe \<Rightarrow> pe)))"
    if bw: "beforeWorkload w (start i) = Inr p" for p
  proof -
    have wl: "workload w p = (r, p')" using body_workload [OF bw] b by simp
    then have g': "Get DeploymentReadyCondition (conds (inst p')) =
          (if snd (statefulset_CreateOrPatch w) = None \<and> 0 <s ReadyReplicas w
           then Some (TrueCondition DeploymentReadyCondition (Text ''DeploymentReadyMessage''))
           else Get DeploymentReadyCondition (conds (inst p)))"
      using workload_Get [of w p] by simp
    have r: "r = (case snd (statefulset_CreateOrPatch w) of
        None \<Rightarrow> Return emptyResult None
      | Some e \<Rightarrow> Return (fst (statefulset_CreateOrPatch w)) (Some e))"
      using workload_ret [of w p] wl by simp
    have c: "CallStatefulSetCreateOrPatch \<in> set (calls p')"
      using workload_calls [of w p] wl by simp
    have "CallStatefulSetCreateOrPatch \<in> set (trace (Reconcile w)) \<and>
          ret (Reconcile w) =
             Return (fst (statefulset_CreateOrPatch w))
               (Some (case PatchInstance w of None \<Rightarrow> e | Some pe \<Rightarrow> pe))"
      if "snd (statefulset_CreateOrPatch w) = Some e" for e
      using that r c by (simp add: R split: option.splits)
    then show ?thesis using g g' by simp
  qed
  from A B show ?thesis by blast
qed

text \<open>
  The workload condition is True and the stateful set upsert times out: the condition is
  still True at the end of the pass, and the timeout is returned with the sub-reconciler's
  result.
\<close>

theorem workload_ready_never_reset_witness:
  "r_Get statefulsetFails = Found redisReady \<and> NewHelper statefulsetFails = None \<and>
   IsTrue DeploymentReadyCondition (conds redisReady) \<and>
   Get DeploymentReadyCondition (ReconcileRbac_conditions statefulsetFails (conds redisReady)) =
     Get DeploymentReadyCondition (conds redisReady) \<and>
   beforeWorkload statefulsetFails (start redisReady) =
     Inr (stagePass (beforeWorkload statefulsetFails (start redisReady))) \<and>
   statefulset_CreateOrPatch statefulsetFails = (later, Some (Error ''timeout'')) \<and>
   IsTrue DeploymentReadyCondition (conds (the (final (Reconcile statefulsetFails)))) \<and>
   ret (Reconcile statefulsetFails) = Return later (Some (Error ''timeout''))"
proof -
  let ?w = statefulsetFails
  let ?p = "stagePass (beforeWorkload ?w (start redisReady))"
  have g: "r_Get ?w = Found redisReady" and h: "NewHelper ?w = None"
    and pi: "PatchInstance ?w = None"
    and sf: "statefulset_CreateOrPatch ?w = (later, Some (Error ''timeout''))"
    and rb: "ReconcileRbac_conditions ?w (conds redisReady) = conds redisReady"
    by (simp_all add: statefulsetFails_def okWorld_def)
  have t: "IsTrue DeploymentReadyCondition (conds redisReady)"
    by (simp add: redisReady_def redisNew_def conds_def allTrue_def IsTrue_def Get_def
        TrueCondition_def)
  have bw: "beforeWorkload ?w (start redisReady) = Inr ?p" by (simp add: eval_defs Let_def)
  note T = workload_ready_never_reset [OF g h]
  have c1: "IsTrue DeploymentReadyCondition (conds (the (final (Reconcile ?w))))"
    using T t rb by simp
  have "ret (Reconcile ?w) =
             Return (fst (statefulset_CreateOrPatch ?w))
               (Some (case PatchInstance ?w of None \<Rightarrow> Error ''timeout'' | Some pe \<Rightarrow> pe))"
    using T bw sf by simp
  then have c2: "ret (Reconcile ?w) = Return later (Some (Error ''timeout''))"
    by (simp add: pi sf)
  from g h t rb bw sf c1 c2 show ?thesis by simp
qed

text \<open>
  C5 as stated fails twice. Zero ready replicas are observed after a successful upsert and
  the workload condition, True before, is True after: nothing resets it to False. And when
  the upsert fails and the status patch fails too, the pass returns the error of the patch,
  not the sub-reconciler's.
\<close>

theorem zero_replicas_leave_workload_ready:
  "IsTrue DeploymentReadyCondition (conds redisReady) \<and>
   ReadyReplicas noReplicas = 0 \<and>
   CallStatefulSetCreateOrPatch \<in> set (trace (Reconcile noReplicas)) \<and>
   ret (Reconcile noReplicas) = Return emptyResult None \<and>
   IsTrue DeploymentReadyCondition (conds (the (final (Reconcile noReplicas)))) \<and>
   statefulset_CreateOrPatch statefulsetAndPatchFail = (later, Some (Error ''timeout'')) \<and>
   ret (Reconcile statefulsetAndPatchFail) = Return later (Some (Error ''conflict''))"
proof -
  have a: "IsTrue DeploymentReadyCondition (conds redisReady)"
    by (simp add: redisReady_def redisNew_def conds_def allTrue_def IsTrue_def Get_def
        TrueCondition_def)
  have b: "ReadyReplicas noReplicas = 0" by (simp add: noReplicas_def okWorld_def)
  have c: "CallStatefulSetCreateOrPatch \<in> set (trace (Reconcile noReplicas))"
    by (simp add: eval_defs Let_def)
  have d: "ret (Reconcile noReplicas) = Return emptyResult None"
    by (simp add: eval_defs Let_def)
  have e: "IsTrue DeploymentReadyCondition (conds (the (final (Reconcile noReplicas))))"
    by (simp add: eval_defs Let_def)
  have f: "statefulset_CreateOrPatch statefulsetAndPatchFail = (later, Some (Error ''timeout''))"
    by (simp add: statefulsetAndPatchFail_def statefulsetFails_def okWorld_def)
  have g: "ret (Reconcile statefulsetAndPatchFail) = Return later (Some (Error ''conflict''))"
    by (simp add: eval_defs Let_def)
  from a b c d e f g show ?thesis by blast
qed

subsection \<open>The result each stage returns\<close>

lemma andThen_Inl: "andThen s f = Inl rp \<Longrightarrow> s = Inl rp \<or> (\<exists>p. s = Inr p \<and> f p = Inl rp)"
  by (cases s) (simp_all add: andThen_def)

lemma initStatus_result: "initStatus p = Inl (r, p') \<Longrightarrow> r = Return emptyResult None"
  by (auto simp: initStatus_def Let_def split: option.splits)

lemma initStatus_Inr: "initStatus p = Inr p0 \<Longrightarrow> p0 = p"
  by (auto simp: initStatus_def Let_def split: option.splits)

lemma reconcileRbac_result:
  "reconcileRbac w p = Inl (r, p') \<Longrightarrow>
     r = Return (fst (ReconcileRbac_result w)) (snd (ReconcileRbac_result w)) \<and>
     calls p' = calls p @ [CallReconcileRbac]"
  by (auto simp: reconcileRbac_def Let_def called_def updConditions_def
      split: prod.splits if_splits)

lemma checkInputs_result: "checkInputs w p = Inl (r, p') \<Longrightarrow> \<exists>e. r = Return emptyResult e"
  by (auto simp: checkInputs_def Error_of_def split: prod.splits if_splits option.splits)

lemma configMaps_result: "configMaps w p = Inl (r, p') \<Longrightarrow> \<exists>e. r = Return emptyResult e"
  by (auto simp: configMaps_def Error_of_def split: prod.splits if_splits option.splits)

lemma hashDrift_result: "hashDrift w p = Inl (r, p') \<Longrightarrow> \<exists>e. r = Return emptyResult e"
  by (auto simp: hashDrift_def Let_def split: prod.splits if_splits)

lemma endpoints_result:
  "endpoints w p = Inl (r, p') \<Longrightarrow> r = Panic \<or> (\<exists>e. r = Return emptyResult e)"
  by (auto simp: endpoints_def Error_of_def Let_def split: prod.splits if_splits option.splits)

text \<open>
  A stage that returns, returns the empty result or panics, the permission stage apart,
  which returns what the permission reconciler gave, as the second call of the pass.
\<close>

lemma beforeInputs_result:
  assumes "beforeInputs w p = Inl (r, p')"
  shows "(r = Panic \<or> (\<exists>e. r = Return emptyResult e)) \<or>
         (r = Return (fst (ReconcileRbac_result w)) (snd (ReconcileRbac_result w)) \<and>
          calls p' = calls p @ [CallReconcileRbac])"
proof -
  from assms have "initStatus p = Inl (r, p') \<or>
      (\<exists>p0. initStatus p = Inr p0 \<and> reconcileRbac w p0 = Inl (r, p'))"
    unfolding beforeInputs_def by (rule andThen_Inl)
  then show ?thesis
  proof
    assume "initStatus p = Inl (r, p')"
    then show ?thesis using initStatus_result by blast
  next
    assume "\<exists>p0. initStatus p = Inr p0 \<and> reconcileRbac w p0 = Inl (r, p')"
    then obtain p0 where a: "initStatus p = Inr p0" and b: "reconcileRbac w p0 = Inl (r, p')"
      by (elim exE conjE)
    from a have "p0 = p" by (rule initStatus_Inr)
    with reconcileRbac_result [OF b] show ?thesis by simp
  qed
qed

lemma beforeConfig_result:
  assumes "beforeConfig w p = Inl (r, p')"
  shows "(r = Panic \<or> (\<exists>e. r = Return emptyResult e)) \<or>
         (r = Return (fst (ReconcileRbac_result w)) (snd (ReconcileRbac_result w)) \<and>
          calls p' = calls p @ [CallReconcileRbac])"
proof -
  from assms have "beforeInputs w p = Inl (r, p') \<or>
      (\<exists>p0. beforeInputs w p = Inr p0 \<and> checkInputs w p0 = Inl (r, p'))"
    unfolding beforeConfig_def by (rule andThen_Inl)
  then show ?thesis using beforeInputs_result [of w p r p'] checkInputs_result [of w _ r p']
    by blast
qed

lemma beforeHash_result:
  assumes "beforeHash w p = Inl (r, p')"
  shows "(r = Panic \<or> (\<exists>e. r = Return emptyResult e)) \<or>
         (r = Return (fst (ReconcileRbac_result w)) (snd (ReconcileRbac_result w)) \<and>
          calls p' = calls p @ [CallReconcileRbac])"
proof -
  from assms have "beforeConfig w p = Inl (r, p') \<or>
      (\<exists>p0. beforeConfig w p = Inr p0 \<and> configMaps w p0 = Inl (r, p'))"
    unfolding beforeHash_def by (rule andThen_Inl)
  then show ?thesis using beforeConfig_result [of w p r p'] configMaps_result [of w _ r p']
    by blast
qed

lemma beforeEndpoints_result:
  assumes "beforeEndpoints w p = Inl (r, p')"
  shows "(r = Panic \<or> (\<exists>e. r = Return emptyResult e)) \<or>
         (r = Return (fst (ReconcileRbac_result w)) (snd (ReconcileRbac_result w)) \<and>
          calls p' = calls p @ [CallReconcileRbac])"
proof -
  from assms have "beforeHash w p = Inl (r, p') \<or>
      (\<exists>p0. beforeHash w p = Inr p0 \<and> hashDrift w p0 = Inl (r, p'))"
    unfolding beforeEndpoints_def by (rule andThen_Inl)
  then show ?thesis using beforeHash_result [of w p r p'] hashDrift_result [of w _ r p']
    by blast
qed

lemma beforeWorkload_result:
  assumes "beforeWorkload w p = Inl (r, p')"
  shows "(r = Panic \<or> (\<exists>e. r = Return emptyResult e)) \<or>
         (r = Return (fst (ReconcileRbac_result w)) (snd (ReconcileRbac_result w)) \<and>
          calls p' = calls p @ [CallReconcileRbac])"
proof -
  from assms have "beforeEndpoints w p = Inl (r, p') \<or>
      (\<exists>p0. beforeEndpoints w p = Inr p0 \<and> endpoints w p0 = Inl (r, p'))"
    unfolding beforeWorkload_def by (rule andThen_Inl)
  then show ?thesis using beforeEndpoints_result [of w p r p'] endpoints_result [of w _ r p']
    by blast
qed

lemma workload_result:
  assumes "workload w p = (r, p')"
  shows "(\<exists>e. r = Return emptyResult e) \<or>
         (r = Return (fst (statefulset_CreateOrPatch w)) (snd (statefulset_CreateOrPatch w)) \<and>
          snd (statefulset_CreateOrPatch w) \<noteq> None \<and>
          CallStatefulSetCreateOrPatch \<in> set (calls p'))"
  using assms
  by (auto simp: workload_def Let_def called_def updConditions_def split: prod.splits if_splits)

lemma body_result:
  assumes "body w p = (r, p')"
  shows "(r = Panic \<or> (\<exists>e. r = Return emptyResult e)) \<or>
         (r = Return (fst (ReconcileRbac_result w)) (snd (ReconcileRbac_result w)) \<and>
          calls p' = calls p @ [CallReconcileRbac]) \<or>
         (r = Return (fst (statefulset_CreateOrPatch w)) (snd (statefulset_CreateOrPatch w)) \<and>
          snd (statefulset_CreateOrPatch w) \<noteq> None \<and>
          CallStatefulSetCreateOrPatch \<in> set (calls p'))"
proof (cases "beforeWorkload w p")
  case (Inl rp)
  then have "beforeWorkload w p = Inl (r, p')" using assms by (simp add: body_def)
  from beforeWorkload_result [OF this] show ?thesis by blast
next
  case (Inr p0)
  then have "workload w p0 = (r, p')" using assms by (simp add: body_def)
  from workload_result [OF this] show ?thesis by blast
qed

text \<open>
  C10. The reconcile pass never builds a result of its own other than the empty one. A
  result it returns that is not the empty result is the permission reconciler's, returned
  unchanged right after that call, or the result of the stateful set create-or-patch,
  returned unchanged with the failure of that call. On the paths of its own, which are the
  exits before the \<open>defer\<close> statement (resource not found, fetch error, helper error), the
  first observation, an input validation failure, a hash error or a hash drift, and the
  end of a pass whose stateful set upsert succeeded, the result is the empty one, with no
  requeue and no delay.
\<close>

theorem nonempty_result_is_propagated:
  "(\<forall>res e. ret (Reconcile w) = Return res e \<and> res \<noteq> emptyResult \<longrightarrow>
      (res = fst (ReconcileRbac_result w) \<and>
       (\<exists>x. trace (Reconcile w) = [CallGet, CallReconcileRbac, CallPatchInstance x])) \<or>
      (res = fst (statefulset_CreateOrPatch w) \<and> snd (statefulset_CreateOrPatch w) \<noteq> None \<and>
       CallStatefulSetCreateOrPatch \<in> set (trace (Reconcile w)))) \<and>
   ((\<forall>j. r_Get w \<noteq> Found j) \<or> NewHelper w \<noteq> None \<longrightarrow>
      (\<exists>e. ret (Reconcile w) = Return emptyResult e)) \<and>
   (\<forall>i. r_Get w = Found i \<and> NewHelper w = None \<longrightarrow>
      (Status_Conditions i = None \<longrightarrow> ret (Reconcile w) = Return emptyResult (PatchInstance w)) \<and>
      (\<forall>p. beforeInputs w (start i) = Inr p \<and> snd (hashInputs w p) \<noteq> None \<longrightarrow>
         (\<exists>e. ret (Reconcile w) = Return emptyResult e)) \<and>
      (\<forall>p rp. beforeHash w (start i) = Inr p \<and> hashDrift w p = Inl rp \<longrightarrow>
         (\<exists>e. ret (Reconcile w) = Return emptyResult e)) \<and>
      (\<forall>p. beforeWorkload w (start i) = Inr p \<and> snd (statefulset_CreateOrPatch w) = None \<longrightarrow>
         ret (Reconcile w) = Return emptyResult (PatchInstance w))) \<and>
   RequeueAfter emptyResult = 0 \<and> \<not> Requeue emptyResult"
proof (intro conjI allI impI)
  fix res e
  assume a: "ret (Reconcile w) = Return res e \<and> res \<noteq> emptyResult"
  show "(res = fst (ReconcileRbac_result w) \<and>
       (\<exists>x. trace (Reconcile w) = [CallGet, CallReconcileRbac, CallPatchInstance x])) \<or>
      (res = fst (statefulset_CreateOrPatch w) \<and> snd (statefulset_CreateOrPatch w) \<noteq> None \<and>
       CallStatefulSetCreateOrPatch \<in> set (trace (Reconcile w)))"
  proof (cases "r_Get w")
    case (Found i)
    show ?thesis
    proof (cases "NewHelper w")
      case None
      obtain r p where b: "body w (start i) = (r, p)" by (cases "body w (start i)")
      note R = Reconcile_deferred [OF Found None b]
      have rr: "ret (Reconcile w) =
          (case PatchInstance w of None \<Rightarrow> r
           | Some e \<Rightarrow> (case r of Return res x \<Rightarrow> Return res (Some e) | Panic \<Rightarrow> Panic))"
        by (simp add: R)
      have tr: "\<exists>x. trace (Reconcile w) = calls p @ [CallPatchInstance x]"
        by (simp add: R)
      from a rr have r: "\<exists>x. r = Return res x"
        by (cases r; cases "PatchInstance w") auto
      from body_result [OF b] r a
      have "(res = fst (ReconcileRbac_result w) \<and> calls p = calls (start i) @ [CallReconcileRbac]) \<or>
            (res = fst (statefulset_CreateOrPatch w) \<and> snd (statefulset_CreateOrPatch w) \<noteq> None \<and>
             CallStatefulSetCreateOrPatch \<in> set (calls p))"
        by auto
      then show ?thesis
      proof
        assume c: "res = fst (ReconcileRbac_result w) \<and> calls p = calls (start i) @ [CallReconcileRbac]"
        then have cp: "calls p = [CallGet, CallReconcileRbac]" by (simp add: start_def)
        from tr have "\<exists>x. trace (Reconcile w) = [CallGet, CallReconcileRbac, CallPatchInstance x]"
          by (simp add: cp)
        with c show ?thesis by simp
      next
        assume c: "res = fst (statefulset_CreateOrPatch w) \<and> snd (statefulset_CreateOrPatch w) \<noteq> None \<and>
             CallStatefulSetCreateOrPatch \<in> set (calls p)"
        from tr obtain x where "trace (Reconcile w) = calls p @ [CallPatchInstance x]" ..
        with c show ?thesis by simp
      qed
    next
      case (Some e')
      with Found a show ?thesis by (auto simp: Reconcile_def)
    qed
  next
    case NotFound
    with a show ?thesis by (auto simp: Reconcile_def)
  next
    case (GetError e')
    with a show ?thesis by (auto simp: Reconcile_def)
  qed
next
  assume "(\<forall>j. r_Get w \<noteq> Found j) \<or> NewHelper w \<noteq> None"
  then show "\<exists>e. ret (Reconcile w) = Return emptyResult e"
    by (auto simp: Reconcile_def split: get_result.splits option.splits)
next
  fix i
  assume a: "r_Get w = Found i \<and> NewHelper w = None"
  assume n: "Status_Conditions i = None"
  have "initStatus (start i) =
      Inl (Return emptyResult None,
           (start i)\<lparr>inst := (inst (start i))\<lparr>Status_Conditions := Some (Init declaredConditions [])\<rparr>\<rparr>)"
    using n by (simp add: initStatus_def start_def)
  note b = body_initStatus_Inl [OF this, of w]
  from a have g: "r_Get w = Found i" and h: "NewHelper w = None" by simp_all
  note R = Reconcile_deferred [OF g h b]
  show "ret (Reconcile w) = Return emptyResult (PatchInstance w)"
    by (simp add: R split: option.splits)
next
  fix i p
  assume a: "r_Get w = Found i \<and> NewHelper w = None"
  assume b: "beforeInputs w (start i) = Inr p \<and> snd (hashInputs w p) \<noteq> None"
  from b obtain e' where "snd (hashInputs w p) = Some e'" by auto
  from checkInputs_error [OF this]
  obtain r p' where c: "checkInputs w p = Inl (r, p')" and r: "\<exists>e. r = Return emptyResult e"
    by simp
  from b c have bd: "body w (start i) = (r, p')"
    using body_checkInputs_Inl [of w "start i" p "(r, p')"] by simp
  from a have g: "r_Get w = Found i" and h: "NewHelper w = None" by simp_all
  note R = Reconcile_deferred [OF g h bd]
  from r show "\<exists>e. ret (Reconcile w) = Return emptyResult e"
    by (auto simp: R split: option.splits)
next
  fix i p rp
  assume a: "r_Get w = Found i \<and> NewHelper w = None"
  assume b: "beforeHash w (start i) = Inr p \<and> hashDrift w p = Inl rp"
  obtain r p' where rp: "rp = (r, p')" by (cases rp)
  with b have r: "\<exists>e. r = Return emptyResult e" using hashDrift_result [of w p r p'] by simp
  from b rp have bd: "body w (start i) = (r, p')"
    using body_hashDrift_Inl [of w "start i" p rp] by simp
  from a have g: "r_Get w = Found i" and h: "NewHelper w = None" by simp_all
  note R = Reconcile_deferred [OF g h bd]
  from r show "\<exists>e. ret (Reconcile w) = Return emptyResult e"
    by (auto simp: R split: option.splits)
next
  fix i p
  assume a: "r_Get w = Found i \<and> NewHelper w = None"
  assume b: "beforeWorkload w (start i) = Inr p \<and> snd (statefulset_CreateOrPatch w) = None"
  obtain r p' where wl: "workload w p = (r, p')" by (cases "workload w p")
  with b have r: "r = Return emptyResult None"
    by (auto simp: workload_def Let_def split: prod.splits if_splits)
  from b wl have bd: "body w (start i) = (r, p')"
    using body_workload [of w "start i" p] by simp
  from a have g: "r_Get w = Found i" and h: "NewHelper w = None" by simp_all
  note R = Reconcile_deferred [OF g h bd]
  from r show "ret (Reconcile w) = Return emptyResult (PatchInstance w)"
    by (simp add: R split: option.splits)
next
  show "RequeueAfter emptyResult = 0" by (simp add: emptyResult_def)
next
  show "\<not> Requeue emptyResult" by (simp add: emptyResult_def)
qed

text \<open>
  The permission reconciler asks to come back in five seconds: the pass returns that
  result as it got it, after the fetch and that call only. Where every collaborator
  succeeds the pass ends with the empty result.
\<close>

theorem nonempty_result_is_propagated_witness:
  "r_Get rbacPending = Found redisReady \<and> NewHelper rbacPending = None \<and>
   ReconcileRbac_result rbacPending = (later, None) \<and>
   later \<noteq> emptyResult \<and>
   ret (Reconcile rbacPending) = Return later None \<and>
   (\<exists>x. trace (Reconcile rbacPending) = [CallGet, CallReconcileRbac, CallPatchInstance x]) \<and>
   beforeWorkload (okWorld redisReady) (start redisReady) =
     Inr (stagePass (beforeWorkload (okWorld redisReady) (start redisReady))) \<and>
   statefulset_CreateOrPatch (okWorld redisReady) = (emptyResult, None) \<and>
   ret (Reconcile (okWorld redisReady)) = Return emptyResult None"
proof -
  let ?w = rbacPending
  let ?ok = "okWorld redisReady"
  let ?p = "stagePass (beforeWorkload ?ok (start redisReady))"
  have g: "r_Get ?w = Found redisReady" and h: "NewHelper ?w = None"
    and rb: "ReconcileRbac_result ?w = (later, None)"
    and sf: "statefulset_CreateOrPatch ?w = (emptyResult, None)"
    by (simp_all add: rbacPending_def okWorld_def)
  have ne: "later \<noteq> emptyResult" by (simp add: later_def emptyResult_def)
  have ev: "ret (Reconcile ?w) = Return later None" by (simp add: eval_defs Let_def)
  from ev ne have "ret (Reconcile ?w) = Return later None \<and> later \<noteq> emptyResult" by simp
  from nonempty_result_is_propagated [of ?w, THEN conjunct1, rule_format, OF this]
  have tr: "\<exists>x. trace (Reconcile ?w) = [CallGet, CallReconcileRbac, CallPatchInstance x]"
    using sf ne by simp
  have og: "r_Get ?ok = Found redisReady" and oh: "NewHelper ?ok = None"
    and osf: "statefulset_CreateOrPatch ?ok = (emptyResult, None)"
    and opi: "PatchInstance ?ok = None"
    by (simp_all add: okWorld_def)
  have bw: "beforeWorkload ?ok (start redisReady) = Inr ?p" by (simp add: eval_defs Let_def)
  note T = nonempty_result_is_propagated [of ?ok, THEN conjunct2, THEN conjunct2, THEN conjunct1,
      THEN spec, THEN mp, OF conjI [OF og oh]]
  from T have "\<forall>p. beforeWorkload ?ok (start redisReady) = Inr p \<and>
       snd (statefulset_CreateOrPatch ?ok) = None \<longrightarrow>
       ret (Reconcile ?ok) = Return emptyResult (PatchInstance ?ok)"
    by (elim conjE)
  then have "beforeWorkload ?ok (start redisReady) = Inr ?p \<and>
       snd (statefulset_CreateOrPatch ?ok) = None \<longrightarrow>
       ret (Reconcile ?ok) = Return emptyResult (PatchInstance ?ok)"
    by (rule spec)
  with bw osf opi have ok: "ret (Reconcile ?ok) = Return emptyResult None" by simp
  from g h rb ne ev tr bw osf ok show ?thesis by simp
qed

end
